theory Spec2Isabelle
  imports Complex_Main
begin

section \<open>Python values and exceptions\<close>

text \<open>
  The values that travel through \<^verbatim>\<open>chutes/chute/cord.py\<close>: what \<^verbatim>\<open>orjson.loads\<close>
  produces (None, bool, int, float, str, list, dict with string keys) together with bytes
  and tuples, which occur as stream chunks and as the positional arguments of a call.
  A dict is an association list in insertion order; a float is represented by the
  rational number it denotes, which is all that truth-value testing looks at.
\<close>

datatype pyval =
    PNone
  | PBool bool
  | PInt int
  | PFloat rat
  | PStr string
  | PBytes string
  | PList "pyval list"
  | PTuple "pyval list"
  | PDict "(string \<times> pyval) list"

text \<open>Python's truth-value testing (\<^verbatim>\<open>bool(v)\<close>), as used by \<^verbatim>\<open>if v:\<close>.\<close>

fun truthy :: "pyval \<Rightarrow> bool" where
  "truthy PNone = False"
| "truthy (PBool b) = b"
| "truthy (PInt i) = (i \<noteq> 0)"
| "truthy (PFloat q) = (q \<noteq> 0)"
| "truthy (PStr s) = (s \<noteq> [])"
| "truthy (PBytes s) = (s \<noteq> [])"
| "truthy (PList xs) = (xs \<noteq> [])"
| "truthy (PTuple xs) = (xs \<noteq> [])"
| "truthy (PDict kvs) = (kvs \<noteq> [])"

text \<open>
  The exceptions of \<^verbatim>\<open>chutes/exception.py\<close> and the built-in and library ones that
  the modelled code can raise. \<open>PyException v\<close> is \<^verbatim>\<open>Exception(v)\<close>;
  \<open>HTTPException code detail\<close> is FastAPI's; \<open>UnsafeFileError\<close> is fickling's;
  \<open>LibraryError\<close> stands for any other exception raised inside a library call.
\<close>

datatype error =
    InvalidPath string
  | DuplicatePath string
  | AuthenticationRequired string
  | NotConfigured string
  | StillProvisioning string
  | PyException pyval
  | KeyError string
  | TypeError
  | AttributeError string
  | HTTPException nat string
  | UnsafeFileError string
  | LibraryError string

section \<open>Strings\<close>

definition slash :: char where
  "slash = CHR ''/''"

definition newline :: char where
  "newline = CHR 0x0A"

text \<open>\<^verbatim>\<open>s.lstrip(c)\<close> and \<^verbatim>\<open>s.rstrip(c)\<close> for a one-character argument.\<close>

definition lstrip :: "char \<Rightarrow> string \<Rightarrow> string" where
  "lstrip c s = dropWhile (\<lambda>x. x = c) s"

definition rstrip :: "char \<Rightarrow> string \<Rightarrow> string" where
  "rstrip c s = rev (dropWhile (\<lambda>x. x = c) (rev s))"

fun startswith :: "string \<Rightarrow> string \<Rightarrow> bool" where
  "startswith s [] = True"
| "startswith [] (p # ps) = False"
| "startswith (x # xs) (p # ps) = (x = p \<and> startswith xs ps)"

text \<open>\<^verbatim>\<open>sub in s\<close> on strings.\<close>

fun contains :: "string \<Rightarrow> string \<Rightarrow> bool" where
  "contains [] sub = (sub = [])"
| "contains (x # xs) sub = (startswith (x # xs) sub \<or> contains xs sub)"

text \<open>\<^verbatim>\<open>s.split(c)\<close> for a one-character separator.\<close>

fun split_on :: "char \<Rightarrow> string \<Rightarrow> string list" where
  "split_on c [] = [[]]"
| "split_on c (x # xs) =
     (if x = c then [] # split_on c xs
      else (case split_on c xs of [] \<Rightarrow> [[x]] | w # ws \<Rightarrow> (x # w) # ws))"

section \<open>Regular expressions\<close>

text \<open>
  The fragment of Python's \<^verbatim>\<open>re\<close> syntax that \<^verbatim>\<open>PATH_RE\<close> uses: character
  classes made of inclusive ranges (a single character is the range from itself to itself),
  grouping, concatenation, \<^verbatim>\<open>*\<close> and \<^verbatim>\<open>+\<close>. Matching is by derivatives.
\<close>

type_synonym cls = "(char \<times> char) list"

definition in_cls :: "cls \<Rightarrow> char \<Rightarrow> bool" where
  "in_cls rs c =
     list_ex (\<lambda>(lo, hi). (of_char lo :: nat) \<le> of_char c \<and> (of_char c :: nat) \<le> of_char hi) rs"

datatype rx =
    Nomatch
  | Empty
  | Cls cls
  | Alt rx rx
  | Seq rx rx
  | Star rx
  | Plus rx

fun nullable :: "rx \<Rightarrow> bool" where
  "nullable Nomatch = False"
| "nullable Empty = True"
| "nullable (Cls rs) = False"
| "nullable (Alt a b) = (nullable a \<or> nullable b)"
| "nullable (Seq a b) = (nullable a \<and> nullable b)"
| "nullable (Star a) = True"
| "nullable (Plus a) = nullable a"

fun deriv :: "char \<Rightarrow> rx \<Rightarrow> rx" where
  "deriv c Nomatch = Nomatch"
| "deriv c Empty = Nomatch"
| "deriv c (Cls rs) = (if in_cls rs c then Empty else Nomatch)"
| "deriv c (Alt a b) = Alt (deriv c a) (deriv c b)"
| "deriv c (Seq a b) =
     (if nullable a then Alt (Seq (deriv c a) b) (deriv c b) else Seq (deriv c a) b)"
| "deriv c (Star a) = Seq (deriv c a) (Star a)"
| "deriv c (Plus a) = Seq (deriv c a) (Star a)"

text \<open>The whole string is matched by the expression.\<close>

fun fullmatch :: "rx \<Rightarrow> string \<Rightarrow> bool" where
  "fullmatch r [] = nullable r"
| "fullmatch r (c # cs) = fullmatch (deriv c r) cs"

text \<open>
  \<^verbatim>\<open>re.compile("^" + r + "$").match(s)\<close>, without flags: \<^verbatim>\<open>^\<close> anchors at the start,
  and \<^verbatim>\<open>$\<close> matches at the end of the string and also just before a newline that is
  the last character of the string.
\<close>

definition re_match :: "rx \<Rightarrow> string \<Rightarrow> bool" where
  "re_match r s =
     (fullmatch r s \<or> (s \<noteq> [] \<and> last s = newline \<and> fullmatch r (butlast s)))"

text \<open>The language of an expression, for reasoning about \<open>fullmatch\<close>.\<close>

definition conc :: "string set \<Rightarrow> string set \<Rightarrow> string set" where
  "conc A B = {u @ v | u v. u \<in> A \<and> v \<in> B}"

inductive_set star :: "string set \<Rightarrow> string set" for A :: "string set" where
  star_Nil: "[] \<in> star A"
| star_App: "u \<in> A \<Longrightarrow> v \<in> star A \<Longrightarrow> u @ v \<in> star A"

fun lang :: "rx \<Rightarrow> string set" where
  "lang Nomatch = {}"
| "lang Empty = {[]}"
| "lang (Cls rs) = {[c] | c. in_cls rs c}"
| "lang (Alt a b) = lang a \<union> lang b"
| "lang (Seq a b) = conc (lang a) (lang b)"
| "lang (Star a) = star (lang a)"
| "lang (Plus a) = conc (lang a) (star (lang a))"

section \<open>Endpoint paths\<close>

text \<open>
  \<^verbatim>\<open>PATH_RE = re.compile(r"^(/[a-z0-9]+[a-z0-9-_]*)+$")\<close>. Inside the second class
  the hyphen follows a complete range, so it is a literal hyphen.
\<close>

definition cls_lower_digit :: cls where
  "cls_lower_digit = [(CHR ''a'', CHR ''z''), (CHR ''0'', CHR ''9'')]"

definition cls_lower_digit_hyphen_underscore :: cls where
  "cls_lower_digit_hyphen_underscore =
     [(CHR ''a'', CHR ''z''), (CHR ''0'', CHR ''9''), (CHR ''-'', CHR ''-''), (CHR ''_'', CHR ''_'')]"

definition PATH_RE_body :: rx where
  "PATH_RE_body =
     Plus (Seq (Cls [(slash, slash)])
            (Seq (Plus (Cls cls_lower_digit)) (Star (Cls cls_lower_digit_hyphen_underscore))))"

definition PATH_RE_match :: "string \<Rightarrow> bool" where
  "PATH_RE_match s = re_match PATH_RE_body s"

text \<open>
  The path grammar in the words of the specification: a leading slash, then one or more
  segments separated by single slashes; no segment is empty; each segment starts with a
  lowercase letter or a digit and continues with lowercase letters, digits, hyphens and
  underscores.
\<close>

definition is_lower_or_digit :: "char \<Rightarrow> bool" where
  "is_lower_or_digit c =
     ((97 \<le> (of_char c :: nat) \<and> (of_char c :: nat) \<le> 122) \<or>
      (48 \<le> (of_char c :: nat) \<and> (of_char c :: nat) \<le> 57))"

definition is_segment_char :: "char \<Rightarrow> bool" where
  "is_segment_char c = (is_lower_or_digit c \<or> c = CHR ''-'' \<or> c = CHR ''_'')"

definition segment_ok :: "string \<Rightarrow> bool" where
  "segment_ok seg =
     (case seg of [] \<Rightarrow> False | c # cs \<Rightarrow> is_lower_or_digit c \<and> list_all is_segment_char cs)"

definition path_grammar :: "string \<Rightarrow> bool" where
  "path_grammar p =
     (case split_on slash p of
        [] \<Rightarrow> False
      | lead # segs \<Rightarrow> lead = [] \<and> segs \<noteq> [] \<and> list_all segment_ok segs)"

text \<open>The wrapped function: its \<^verbatim>\<open>__name__\<close> and what awaiting a call of it gives.\<close>

record pyfunc =
  fname :: string
  fcall :: "pyval list \<Rightarrow> (string \<times> pyval) list \<Rightarrow> error + pyval"
  fgen :: "pyval list \<Rightarrow> (string \<times> pyval) list \<Rightarrow> pyval list \<times> error option"

text \<open>
  The attributes of a \<^verbatim>\<open>Cord\<close>. \<open>app\<close> is the reference to the owning
  \<^verbatim>\<open>Chute\<close>; the session keyword arguments are not modelled.
\<close>

record cord =
  app :: nat
  path :: "string option"
  passthrough_path :: "string option"
  public_api_path :: "string option"
  public_api_method :: string
  passthrough_port :: "nat option"
  stream :: bool
  passthrough :: bool
  http_method :: string
  provision_timeout :: nat
  func :: "pyfunc option"

text \<open>\<^verbatim>\<open>path = "/" + path.lstrip("/").rstrip("/")\<close>\<close>

definition normalize_path :: "string \<Rightarrow> string" where
  "normalize_path p = slash # rstrip slash (lstrip slash p)"

text \<open>\<^verbatim>\<open>"//" in path or not PATH_RE.match(path)\<close>\<close>

definition path_invalid :: "string \<Rightarrow> bool" where
  "path_invalid p = (contains p [slash, slash] \<or> \<not> PATH_RE_match p)"

text \<open>
  The three property setters. A setter returns the exception it raised, if any, and the
  cord as it is afterwards. The class \<^verbatim>\<open>Chute\<close> lives in another module
  (\<^verbatim>\<open>chutes.chute.base\<close>): \<open>cords a\<close> is the value of \<^verbatim>\<open>.cords\<close> of the chute \<open>a\<close>, the one thing the path
  setter reads from it.
\<close>

definition path_setter :: "(nat \<Rightarrow> cord list) \<Rightarrow> cord \<Rightarrow> string \<Rightarrow> error option \<times> cord" where
  "path_setter cords self p =
     (let p' = normalize_path p in
      if path_invalid p' then (Some (InvalidPath p'), self)
      else if list_ex (\<lambda>c. path c = Some p') (cords (app self)) then (Some (DuplicatePath p'), self)
      else (None, self\<lparr>path := Some p'\<rparr>))"

definition passthrough_path_setter :: "cord \<Rightarrow> string \<Rightarrow> error option \<times> cord" where
  "passthrough_path_setter self p =
     (let p' = normalize_path p in
      if path_invalid p' then (Some (InvalidPath p'), self)
      else (None, self\<lparr>passthrough_path := Some p'\<rparr>))"

definition public_api_path_setter :: "cord \<Rightarrow> string \<Rightarrow> error option \<times> cord" where
  "public_api_path_setter self p =
     (let p' = normalize_path p in
      if path_invalid p' then (Some (InvalidPath p'), self)
      else (None, self\<lparr>public_api_path := Some p'\<rparr>))"

text \<open>\<^verbatim>\<open>if not self._path\<close>: the attribute is None or the empty string.\<close>

definition unset :: "string option \<Rightarrow> bool" where
  "unset p = (case p of None \<Rightarrow> True | Some s \<Rightarrow> s = [])"

text \<open>
  \<^verbatim>\<open>Cord.__call__\<close>: binding the cord to a function. The result tells which of the
  four methods is handed back.
\<close>

datatype bound = LocalCall | LocalStreamCall | RemoteCall | RemoteStreamCall

definition cord_call ::
  "(nat \<Rightarrow> cord list) \<Rightarrow> bool \<Rightarrow> cord \<Rightarrow> pyfunc \<Rightarrow> (error + bound) \<times> cord" where
  "cord_call cords is_local self f =
     (let self1 = self\<lparr>func := Some f\<rparr>;
          (e1, self2) = (if unset (path self1) then path_setter cords self1 (fname f)
                         else (None, self1))
      in case e1 of
           Some e \<Rightarrow> (Inl e, self2)
         | None \<Rightarrow>
             (let (e2, self3) = (if unset (passthrough_path self2)
                                 then passthrough_path_setter self2 (fname f)
                                 else (None, self2))
              in case e2 of
                   Some e \<Rightarrow> (Inl e, self3)
                 | None \<Rightarrow>
                     (if is_local
                      then (Inr (if \<not> stream self3 then LocalCall else LocalStreamCall), self3)
                      else (Inr (if \<not> stream self3 then RemoteCall else RemoteStreamCall), self3))))"

text \<open>
  \<^verbatim>\<open>Cord.__init__\<close>. A path argument is handed to its setter only when it is truthy
  (neither None nor the empty string); an exception of a setter leaves no cord behind.
\<close>

definition set_if_given ::
  "(cord \<Rightarrow> string \<Rightarrow> error option \<times> cord) \<Rightarrow> cord \<Rightarrow> string option \<Rightarrow> error option \<times> cord" where
  "set_if_given setter self arg =
     (case arg of None \<Rightarrow> (None, self)
      | Some s \<Rightarrow> if s = [] then (None, self) else setter self s)"

definition cord_init ::
  "(nat \<Rightarrow> cord list) \<Rightarrow> nat \<Rightarrow> bool \<Rightarrow> string option \<Rightarrow> string option \<Rightarrow> bool \<Rightarrow>
     string option \<Rightarrow> string \<Rightarrow> string \<Rightarrow> nat \<Rightarrow> error + cord" where
  "cord_init cords a stream_arg path_arg passthrough_path_arg passthrough_arg
       public_api_path_arg public_api_method_arg method_arg provision_timeout_arg =
     (let self0 = \<lparr>app = a, path = None, passthrough_path = None, public_api_path = None,
                    public_api_method = public_api_method_arg, passthrough_port = None,
                    stream = stream_arg, passthrough = passthrough_arg, http_method = method_arg,
                    provision_timeout = provision_timeout_arg, func = None\<rparr>
      in case set_if_given (path_setter cords) self0 path_arg of
           (Some e, self1) \<Rightarrow> Inl e
         | (None, self1) \<Rightarrow>
             (case set_if_given passthrough_path_setter self1 passthrough_path_arg of
                (Some e, self2) \<Rightarrow> Inl e
              | (None, self2) \<Rightarrow>
                  (case set_if_given public_api_path_setter self2 public_api_path_arg of
                     (Some e, self3) \<Rightarrow> Inl e
                   | (None, self3) \<Rightarrow> Inr self3)))"

text \<open>The cord that \<^verbatim>\<open>Cord(app)\<close> constructs when every other argument has its default.\<close>

definition cord_new :: "nat \<Rightarrow> cord" where
  "cord_new a =
     \<lparr>app = a, path = None, passthrough_path = None, public_api_path = None,
      public_api_method = ''POST'', passthrough_port = None, stream = False,
      passthrough = False, http_method = ''GET'', provision_timeout = 180, func = None\<rparr>"

text \<open>A path written as its segments, each one behind a slash.\<close>

definition join_segments :: "string list \<Rightarrow> string" where
  "join_segments segs = concat (map ((#) slash) segs)"

definition group_lang :: "string set" where
  "group_lang = {slash # seg | seg. segment_ok seg}"

definition is_upper :: "char \<Rightarrow> bool" where
  "is_upper c = (65 \<le> (of_char c :: nat) \<and> (of_char c :: nat) \<le> 90)"

text \<open>A function of the given name that returns the list of its positional arguments.\<close>

definition example_func :: "string \<Rightarrow> pyfunc" where
  "example_func name =
     \<lparr>fname = name, fcall = (\<lambda>args kwargs. Inr (PList args)),
      fgen = (\<lambda>args kwargs. (args, None))\<rparr>"

section \<open>The calling side\<close>

text \<open>
  What the calling side takes from outside this module. \<open>pickle_dumps\<close>,
  \<open>gzip_compress\<close> and \<open>b64encode\<close> are the three library calls of the encoding;
  \<open>sign_request\<close> is \<^verbatim>\<open>chutes.util.auth.sign_request\<close> and \<open>app_uid\<close> the
  \<^verbatim>\<open>uid\<close> of a chute, both defined in other modules of the package;
  \<open>session_post n\<close> is the answer of the remote side to the \<open>n\<close>-th request
  (or the exception of the HTTP library); \<open>bytes_decode\<close> is \<^verbatim>\<open>bytes.decode\<close>,
  \<open>json_loads\<close> is \<^verbatim>\<open>orjson.loads\<close>, and \<open>format_value\<close> is how an f-string
  renders a value.
\<close>

record http_response =
  status :: nat
  body_text :: string
  content :: "string list"
  body_json :: "error + pyval"

record http_request =
  url :: string
  headers :: "(string \<times> string) list"
  payload :: string

record client =
  pickle_dumps :: "pyval \<Rightarrow> error + string"
  gzip_compress :: "string \<Rightarrow> string"
  b64encode :: "string \<Rightarrow> string"
  sign_request :: "(string \<times> string) list \<Rightarrow> (string \<times> string) list \<times> string"
  app_uid :: "nat \<Rightarrow> string"
  session_post :: "nat \<Rightarrow> http_request \<Rightarrow> error + http_response"
  bytes_decode :: "string \<Rightarrow> error + string"
  json_loads :: "string \<Rightarrow> error + pyval"
  format_value :: "pyval \<Rightarrow> string"

text \<open>
  The state a local call changes: how many requests have been sent, and for how many
  seconds the caller has slept between attempts.
\<close>

record world =
  posts :: nat
  slept :: nat

definition sleep :: "nat \<Rightarrow> world \<Rightarrow> world" where
  "sleep seconds w = w\<lparr>slept := slept w + seconds\<rparr>"

text \<open>\<^verbatim>\<open>d.update({k: v})\<close> on an insertion-ordered dict.\<close>

fun dict_update :: "(string \<times> 'v) list \<Rightarrow> string \<Rightarrow> 'v \<Rightarrow> (string \<times> 'v) list" where
  "dict_update [] k v = [(k, v)]"
| "dict_update ((k', v') # kvs) k v =
     (if k' = k then (k, v) # kvs else (k', v') # dict_update kvs k v)"

text \<open>
  The dict \<^verbatim>\<open>request_payload\<close> of \<^verbatim>\<open>_call\<close>: the positional arguments (a tuple)
  and the keyword arguments (a dict), each pickled, compressed and base64-encoded on its
  own.
\<close>

definition request_payload ::
  "client \<Rightarrow> pyval list \<Rightarrow> (string \<times> pyval) list \<Rightarrow> error + (string \<times> string) list" where
  "request_payload cl args kwargs =
     (case pickle_dumps cl (PTuple args) of
        Inl e \<Rightarrow> Inl e
      | Inr pa \<Rightarrow>
          (case pickle_dumps cl (PDict kwargs) of
             Inl e \<Rightarrow> Inl e
           | Inr pk \<Rightarrow>
               Inr [(''args'', b64encode cl (gzip_compress cl pa)),
                    (''kwargs'', b64encode cl (gzip_compress cl pk))]))"

text \<open>How an f-string renders \<^verbatim>\<open>self.path\<close>.\<close>

definition format_path :: "string option \<Rightarrow> string" where
  "format_path p = (case p of None \<Rightarrow> ''None'' | Some s \<Rightarrow> s)"

text \<open>
  The request that \<^verbatim>\<open>_call\<close> sends: the signed payload, the headers of the signer
  with the two headers that name the chute and the function, and the target
  \<^verbatim>\<open>/chutes/{uid}{path}\<close>.
\<close>

definition build_request ::
  "client \<Rightarrow> cord \<Rightarrow> pyfunc \<Rightarrow> pyval list \<Rightarrow> (string \<times> pyval) list \<Rightarrow> error + http_request" where
  "build_request cl self f args kwargs =
     (case request_payload cl args kwargs of
        Inl e \<Rightarrow> Inl e
      | Inr signed_payload \<Rightarrow>
          (let (hdrs, payload_string) = sign_request cl signed_payload;
               hdrs1 = dict_update hdrs ''X-Parachutes-ChuteID'' (app_uid cl (app self));
               hdrs2 = dict_update hdrs1 ''X-Parachutes-Function'' (fname f)
           in Inr \<lparr>url = ''/chutes/'' @ app_uid cl (app self) @ format_path (path self),
                    headers = hdrs2, payload = payload_string\<rparr>))"

text \<open>
  The body of the inner function \<^verbatim>\<open>_call\<close>, up to its \<^verbatim>\<open>yield\<close>: encode, sign,
  send one request, look at the status.
\<close>

definition call_body ::
  "client \<Rightarrow> cord \<Rightarrow> pyfunc \<Rightarrow> pyval list \<Rightarrow> (string \<times> pyval) list \<Rightarrow> world
     \<Rightarrow> (error + http_response) \<times> world" where
  "call_body cl self f args kwargs w =
     (case build_request cl self f args kwargs of
        Inl e \<Rightarrow> (Inl e, w)
      | Inr req \<Rightarrow>
          (case session_post cl (posts w) req of
             Inl e \<Rightarrow> (Inl e, w\<lparr>posts := Suc (posts w)\<rparr>)
           | Inr response \<Rightarrow>
               if status response = 503
               then (Inl (StillProvisioning (body_text response)), w\<lparr>posts := Suc (posts w)\<rparr>)
               else if status response \<noteq> 200
               then (Inl (PyException (PStr (body_text response))), w\<lparr>posts := Suc (posts w)\<rparr>)
               else (Inr response, w\<lparr>posts := Suc (posts w)\<rparr>)))"

subsection \<open>The two decorators of \<^verbatim>\<open>_call\<close>\<close>

text \<open>
  \<^verbatim>\<open>contextlib.asynccontextmanager\<close> turns a generator function into a function that,
  when called, only builds a context manager around the generator: none of the body runs
  before the manager is entered by \<^verbatim>\<open>async with\<close>.
\<close>

datatype 'a context_manager = ContextManager "world \<Rightarrow> (error + 'a) \<times> world"

definition asynccontextmanager ::
  "(world \<Rightarrow> (error + 'a) \<times> world) \<Rightarrow> world \<Rightarrow> (error + 'a context_manager) \<times> world" where
  "asynccontextmanager body = (\<lambda>w. (Inr (ContextManager body), w))"

fun aenter :: "'a context_manager \<Rightarrow> world \<Rightarrow> (error + 'a) \<times> world" where
  "aenter (ContextManager body) w = body w"

definition is_still_provisioning :: "error \<Rightarrow> bool" where
  "is_still_provisioning e = (case e of StillProvisioning d \<Rightarrow> True | _ \<Rightarrow> False)"

text \<open>
  \<^verbatim>\<open>backoff.on_exception(backoff.constant, (StillProvisioning,), jitter=None,
  interval=1, max_time=...)\<close> applied to a plain (not coroutine) function \<open>target\<close>:
  the library's loop calls \<open>target\<close>; if the call returns, that is the result; if the call
  raises StillProvisioning and the time elapsed at the start of the attempt is below
  \<open>max_time\<close>, it sleeps for \<open>min 1 (max_time - elapsed)\<close> seconds and calls again;
  otherwise the exception is raised. Time is counted in whole seconds and passes in
  sleeps only.
\<close>

function retry_exception ::
  "(world \<Rightarrow> (error + 'a) \<times> world) \<Rightarrow> nat \<Rightarrow> nat \<Rightarrow> world \<Rightarrow> (error + 'a) \<times> world" where
  "retry_exception target max_time elapsed w =
     (case target w of
        (Inr ret, w') \<Rightarrow> (Inr ret, w')
      | (Inl e, w') \<Rightarrow>
          if is_still_provisioning e \<and> elapsed < max_time
          then retry_exception target max_time
                 (elapsed + min 1 (max_time - elapsed)) (sleep (min 1 (max_time - elapsed)) w')
          else (Inl e, w'))"
  by pat_completeness auto
termination
  by (relation "measure (\<lambda>(target, max_time, elapsed, w). max_time - elapsed)") auto

definition on_exception ::
  "nat \<Rightarrow> (world \<Rightarrow> (error + 'a) \<times> world) \<Rightarrow> world \<Rightarrow> (error + 'a) \<times> world" where
  "on_exception max_time target = retry_exception target max_time 0"

text \<open>
  \<^verbatim>\<open>Cord._local_call_base\<close>. The inner function is decorated first with
  \<^verbatim>\<open>asynccontextmanager\<close> and then with \<^verbatim>\<open>backoff.on_exception\<close>, so the retry
  loop wraps the call that builds the context manager; the body runs afterwards, when
  \<^verbatim>\<open>async with _call() as response\<close> enters the manager. Of the logger calls, only
  those of the streaming loop below are recorded.
\<close>

definition local_call_base ::
  "client \<Rightarrow> cord \<Rightarrow> pyval list \<Rightarrow> (string \<times> pyval) list \<Rightarrow> world
     \<Rightarrow> (error + http_response) \<times> world" where
  "local_call_base cl self args kwargs w =
     (case func self of
        None \<Rightarrow> (Inl (AttributeError ''_func''), w)
      | Some f \<Rightarrow>
          (let call = on_exception (provision_timeout self)
                        (asynccontextmanager (call_body cl self f args kwargs))
           in case call w of
                (Inl e, w') \<Rightarrow> (Inl e, w')
              | (Inr manager, w') \<Rightarrow> aenter manager w'))"

subsection \<open>The event stream\<close>

datatype level = Debug | Error

record stream_out =
  yielded :: "pyval list"
  logged :: "(level \<times> pyval) list"
  invoked :: "pyval list"
  raised :: "error option"

text \<open>\<^verbatim>\<open>str.isspace\<close> on the code points below 256, and \<^verbatim>\<open>s.strip()\<close>.\<close>

definition is_space :: "char \<Rightarrow> bool" where
  "is_space c =
     (let n = (of_char c :: nat)
      in (9 \<le> n \<and> n \<le> 13) \<or> (28 \<le> n \<and> n \<le> 32) \<or> n = 133 \<or> n = 160)"

definition strip :: "string \<Rightarrow> string" where
  "strip s = rev (dropWhile is_space (rev (dropWhile is_space s)))"

text \<open>\<^verbatim>\<open>d.get(k)\<close>: None when the key is missing.\<close>

definition dict_get :: "(string \<times> pyval) list \<Rightarrow> string \<Rightarrow> pyval" where
  "dict_get kvs k = (case map_of kvs k of None \<Rightarrow> PNone | Some v \<Rightarrow> v)"

text \<open>\<^verbatim>\<open>sep.join(xs)\<close>\<close>

fun join_with :: "string \<Rightarrow> string list \<Rightarrow> string" where
  "join_with sep [] = []"
| "join_with sep [x] = x"
| "join_with sep (x # y # ys) = x @ sep @ join_with sep (y # ys)"

text \<open>
  The message built for a trace. \<^verbatim>\<open>data["trace"]\<close> is subscripted with a string:
  for a dict a missing key is a KeyError, and any other (truthy) value is taken to raise
  TypeError. The pieces are joined by \<^verbatim>\<open>"".join\<close>, which wants the timestamp to be
  a string.
\<close>

definition trace_message :: "client \<Rightarrow> pyval \<Rightarrow> error + string" where
  "trace_message cl tr =
     (case tr of
        PDict t \<Rightarrow>
          (case map_of t ''timestamp'' of
             None \<Rightarrow> Inl (KeyError ''timestamp'')
           | Some ts \<Rightarrow>
               (case map_of t ''message'' of
                  None \<Rightarrow> Inl (KeyError ''message'')
                | Some msg \<Rightarrow>
                    (case ts of
                       PStr s \<Rightarrow>
                         Inr (s @ '' ['' @
                              join_with '' ''
                                (map (\<lambda>(k, v). k @ ''='' @ format_value cl v)
                                   (filter (\<lambda>(k, v). k \<noteq> ''timestamp'' \<and> k \<noteq> ''message'') t))
                              @ '']: '' @ format_value cl msg)
                     | _ \<Rightarrow> Inl TypeError)))
      | _ \<Rightarrow> Inl TypeError)"

text \<open>
  One turn of the loop of \<^verbatim>\<open>_local_stream_call\<close>, from the decoded JSON on: what
  is logged, what is yielded, what the wrapped function was applied to, and whether the
  turn raised.
\<close>

definition handle_data :: "client \<Rightarrow> cord \<Rightarrow> pyval \<Rightarrow> stream_out" where
  "handle_data cl self data =
     (case data of
        PDict kvs \<Rightarrow>
          if truthy (dict_get kvs ''trace'') then
            (case trace_message cl (dict_get kvs ''trace'') of
               Inl e \<Rightarrow> \<lparr>yielded = [], logged = [], invoked = [], raised = Some e\<rparr>
             | Inr message \<Rightarrow>
                 \<lparr>yielded = [], logged = [(Debug, PStr message)], invoked = [], raised = None\<rparr>)
          else if truthy (dict_get kvs ''error'') then
            \<lparr>yielded = [], logged = [(Error, dict_get kvs ''error'')], invoked = [],
             raised = Some (PyException (dict_get kvs ''error''))\<rparr>
          else if truthy (dict_get kvs ''result'') then
            (if passthrough self then
               (case func self of
                  None \<Rightarrow>
                    \<lparr>yielded = [], logged = [], invoked = [],
                     raised = Some (AttributeError ''_func'')\<rparr>
                | Some f \<Rightarrow>
                    (case fcall f [dict_get kvs ''result''] [] of
                       Inl e \<Rightarrow>
                         \<lparr>yielded = [], logged = [], invoked = [dict_get kvs ''result''],
                          raised = Some e\<rparr>
                     | Inr r \<Rightarrow>
                         \<lparr>yielded = [r], logged = [], invoked = [dict_get kvs ''result''],
                          raised = None\<rparr>))
             else \<lparr>yielded = [dict_get kvs ''result''], logged = [], invoked = [],
                   raised = None\<rparr>)
          else \<lparr>yielded = [], logged = [], invoked = [], raised = None\<rparr>
      | _ \<Rightarrow> \<lparr>yielded = [], logged = [], invoked = [], raised = Some (AttributeError ''get'')\<rparr>)"

text \<open>The whole turn: decode the chunk, skip what is not a data frame, parse, dispatch.\<close>

definition handle_chunk :: "client \<Rightarrow> cord \<Rightarrow> string \<Rightarrow> stream_out" where
  "handle_chunk cl self encoded_content =
     (case bytes_decode cl encoded_content of
        Inl e \<Rightarrow> \<lparr>yielded = [], logged = [], invoked = [], raised = Some e\<rparr>
      | Inr decoded \<Rightarrow>
          if decoded = [] \<or> strip decoded = [] \<or> \<not> contains decoded ''data: {''
          then \<lparr>yielded = [], logged = [], invoked = [], raised = None\<rparr>
          else (case json_loads cl (drop 6 decoded) of
                  Inl e \<Rightarrow> \<lparr>yielded = [], logged = [], invoked = [], raised = Some e\<rparr>
                | Inr data \<Rightarrow> handle_data cl self data))"

text \<open>The loop over \<^verbatim>\<open>response.content\<close>: it stops at the first turn that raises.\<close>

fun stream_events :: "client \<Rightarrow> cord \<Rightarrow> string list \<Rightarrow> stream_out" where
  "stream_events cl self [] = \<lparr>yielded = [], logged = [], invoked = [], raised = None\<rparr>"
| "stream_events cl self (encoded_content # rest) =
     (let out = handle_chunk cl self encoded_content
      in case raised out of
           Some e \<Rightarrow> out
         | None \<Rightarrow>
             (let more = stream_events cl self rest
              in \<lparr>yielded = yielded out @ yielded more, logged = logged out @ logged more,
                  invoked = invoked out @ invoked more, raised = raised more\<rparr>))"

text \<open>\<^verbatim>\<open>Cord._local_stream_call\<close>\<close>

definition local_stream_call ::
  "client \<Rightarrow> cord \<Rightarrow> pyval list \<Rightarrow> (string \<times> pyval) list \<Rightarrow> world \<Rightarrow> stream_out \<times> world" where
  "local_stream_call cl self args kwargs w =
     (case local_call_base cl self args kwargs w of
        (Inl e, w') \<Rightarrow> (\<lparr>yielded = [], logged = [], invoked = [], raised = Some e\<rparr>, w')
      | (Inr response, w') \<Rightarrow> (stream_events cl self (content response), w'))"

text \<open>
  \<^verbatim>\<open>Cord._local_call\<close>: the last item of the stream, None when there is none; an
  exception of the stream is the exception of the call. The third component is what the
  stream logged.
\<close>

definition local_call ::
  "client \<Rightarrow> cord \<Rightarrow> pyval list \<Rightarrow> (string \<times> pyval) list \<Rightarrow> world
     \<Rightarrow> (error + pyval) \<times> world \<times> (level \<times> pyval) list" where
  "local_call cl self args kwargs w =
     (let (out, w') = local_stream_call cl self args kwargs w
      in case raised out of
           Some e \<Rightarrow> (Inl e, w', logged out)
         | None \<Rightarrow> (Inr (foldl (\<lambda>result item. item) PNone (yielded out)), w', logged out))"

subsection \<open>Stream events\<close>

text \<open>
  The three kinds of event of the specification, and the chunks that carry them: a line
  that decodes to a text containing \<^verbatim>\<open>data: {\<close> whose part from the seventh character
  on parses to a JSON object with the one key \<^verbatim>\<open>trace\<close>, \<^verbatim>\<open>error\<close> or
  \<^verbatim>\<open>result\<close>.
\<close>

datatype event = TraceEvent "(string \<times> pyval) list" | ErrorEvent pyval | ResultEvent pyval

definition frame :: "client \<Rightarrow> string \<Rightarrow> pyval \<Rightarrow> bool" where
  "frame cl chunk data =
     (case bytes_decode cl chunk of
        Inl e \<Rightarrow> False
      | Inr decoded \<Rightarrow> contains decoded ''data: {'' \<and> json_loads cl (drop 6 decoded) = Inr data)"

fun carries :: "client \<Rightarrow> string \<Rightarrow> event \<Rightarrow> bool" where
  "carries cl chunk (TraceEvent t) = frame cl chunk (PDict [(''trace'', PDict t)])"
| "carries cl chunk (ErrorEvent e) = frame cl chunk (PDict [(''error'', e)])"
| "carries cl chunk (ResultEvent v) = frame cl chunk (PDict [(''result'', v)])"

text \<open>A trace that has a string timestamp and a message.\<close>

definition trace_ok :: "(string \<times> pyval) list \<Rightarrow> bool" where
  "trace_ok t =
     (case map_of t ''timestamp'' of
        Some (PStr s) \<Rightarrow> map_of t ''message'' \<noteq> None
      | _ \<Rightarrow> False)"

text \<open>An event that does not end the stream.\<close>

fun quiet :: "event \<Rightarrow> bool" where
  "quiet (TraceEvent t) = trace_ok t"
| "quiet (ErrorEvent e) = (\<not> truthy e)"
| "quiet (ResultEvent v) = True"

text \<open>The truthy result values of a list of events, and the log lines of its traces.\<close>

fun truthy_results :: "event list \<Rightarrow> pyval list" where
  "truthy_results [] = []"
| "truthy_results (ResultEvent v # evs) =
     (if truthy v then v # truthy_results evs else truthy_results evs)"
| "truthy_results (ev # evs) = truthy_results evs"

fun trace_log :: "client \<Rightarrow> event list \<Rightarrow> (level \<times> pyval) list" where
  "trace_log cl [] = []"
| "trace_log cl (TraceEvent t # evs) =
     (case trace_message cl (PDict t) of
        Inr m \<Rightarrow> (Debug, PStr m) # trace_log cl evs
      | Inl e \<Rightarrow> trace_log cl evs)"
| "trace_log cl (ev # evs) = trace_log cl evs"

section \<open>Example data\<close>

text \<open>
  Concrete lines of an event stream, as the remote side sends them, and a table that
  stands for \<^verbatim>\<open>orjson.loads\<close> on the JSON texts among them.
\<close>

definition frame_trace1 :: string where
  \<open>frame_trace1 =
     ''data: {"trace": {"timestamp": "12:00:01", "host": "a", "message": "loading"}}\<newline>''\<close>

definition frame_trace2 :: string where
  \<open>frame_trace2 =
     ''data: {"trace": {"timestamp": "12:00:02", "host": "a", "message": "running"}}\<newline>''\<close>

definition frame_A :: string where
  \<open>frame_A = ''data: {"result": "A"}\<newline>''\<close>

definition frame_B :: string where
  \<open>frame_B = ''data: {"result": "B"}\<newline>''\<close>

definition frame_E :: string where
  \<open>frame_E = ''data: {"error": "E"}\<newline>''\<close>

definition frame_zero :: string where
  \<open>frame_zero = ''data: {"result": 0}\<newline>''\<close>

definition frame_five :: string where
  \<open>frame_five = ''data: {"result": 5}\<newline>''\<close>

definition trace1 :: "(string \<times> pyval) list" where
  "trace1 = [(''timestamp'', PStr ''12:00:01''), (''host'', PStr ''a''),
             (''message'', PStr ''loading'')]"

definition trace2 :: "(string \<times> pyval) list" where
  "trace2 = [(''timestamp'', PStr ''12:00:02''), (''host'', PStr ''a''),
             (''message'', PStr ''running'')]"

definition example_loads :: "string \<Rightarrow> error + pyval" where
  "example_loads s =
     (case map_of
        [(drop 6 frame_trace1, PDict [(''trace'', PDict trace1)]),
         (drop 6 frame_trace2, PDict [(''trace'', PDict trace2)]),
         (drop 6 frame_A, PDict [(''result'', PStr ''A'')]),
         (drop 6 frame_B, PDict [(''result'', PStr ''B'')]),
         (drop 6 frame_E, PDict [(''error'', PStr ''E'')]),
         (drop 6 frame_zero, PDict [(''result'', PInt 0)]),
         (drop 6 frame_five, PDict [(''result'', PInt 5)])] s of
        None \<Rightarrow> Inl (LibraryError ''JSONDecodeError'')
      | Some v \<Rightarrow> Inr v)"

text \<open>A response with a status, a body and the lines of the body.\<close>

definition plain_response :: "nat \<Rightarrow> string \<Rightarrow> string list \<Rightarrow> http_response" where
  "plain_response code body chunks =
     \<lparr>status = code, body_text = body, content = chunks,
      body_json = Inl (LibraryError ''ContentTypeError'')\<rparr>"

text \<open>
  A calling side whose remote end answers the \<open>n\<close>-th request with \<open>remote n\<close>; the
  encoding and the signature are trivial ones.
\<close>

definition example_client :: "(nat \<Rightarrow> http_response) \<Rightarrow> client" where
  "example_client remote =
     \<lparr>pickle_dumps = (\<lambda>v. Inr []), gzip_compress = (\<lambda>b. b), b64encode = (\<lambda>b. b),
      sign_request = (\<lambda>p. ([], [])), app_uid = (\<lambda>a. ''chute''),
      session_post = (\<lambda>n req. Inr (remote n)), bytes_decode = Inr,
      json_loads = example_loads,
      format_value = (\<lambda>v. case v of PStr s \<Rightarrow> s | _ \<Rightarrow> ''?'')\<rparr>"

text \<open>A remote end that is still provisioning at the first request and ready afterwards.\<close>

definition provisioning_remote :: "nat \<Rightarrow> http_response" where
  "provisioning_remote n =
     (if n = 0 then plain_response 503 ''still provisioning'' []
      else plain_response 200 [] [])"

text \<open>A remote end that answers with status 200 and the given lines.\<close>

definition streaming_remote :: "string list \<Rightarrow> nat \<Rightarrow> http_response" where
  "streaming_remote chunks n = plain_response 200 [] chunks"

text \<open>A cord made with the defaults and bound to a function of the given name.\<close>

definition bound_cord :: "nat \<Rightarrow> string \<Rightarrow> cord" where
  "bound_cord a name =
     (cord_new a)\<lparr>path := Some (slash # name), passthrough_path := Some (slash # name),
                  func := Some (example_func name)\<rparr>"

section \<open>The remote side\<close>

text \<open>
  What the remote side takes from outside this module: the three library calls of the
  decoding, each of which may raise, and the sidecar service, whose answer to the
  \<open>n\<close>-th request is \<open>sidecar n\<close> (or the exception of the HTTP library).
  \<open>fickling_load\<close> raises \<open>UnsafeFileError\<close> for a pickle that its analysis rejects.
  An answer of the sidecar has a status, a body, given as the chunks in which the
  sidecar sends it, and what \<^verbatim>\<open>await response.json()\<close> makes of the body.
  \<open>high_water\<close> is the length beyond which the stream reader of the HTTP library
  refuses a line (twice its buffer limit).
\<close>

record sidecar_request =
  base_port :: nat
  verb :: string
  target :: "string option"
  call_kwargs :: "(string \<times> pyval) list"

record sidecar_response =
  sidecar_status :: nat
  body_chunks :: "string list"
  json_result :: "error + pyval"

record server =
  b64decode :: "string \<Rightarrow> error + string"
  gzip_decompress :: "string \<Rightarrow> error + string"
  fickling_load :: "string \<Rightarrow> error + pyval"
  sidecar :: "nat \<Rightarrow> sidecar_request \<Rightarrow> error + sidecar_response"
  high_water :: nat

text \<open>
  The lines of a body, each with the newline that ends it; what follows the last newline
  is a line of its own when it is not empty.
\<close>

fun split_lines :: "string \<Rightarrow> string list" where
  "split_lines [] = []"
| "split_lines (c # cs) =
     (if c = newline then [c] # split_lines cs
      else (case split_lines cs of [] \<Rightarrow> [[c]] | l # ls \<Rightarrow> (c # l) # ls))"

text \<open>
  \<^verbatim>\<open>async for content in response.content\<close>: the stream reader of the HTTP
  library is iterated by \<^verbatim>\<open>readline\<close>, so the items are the lines of the body,
  whatever the chunks were in which the body arrived; a line longer than the reader
  accepts ends the iteration with a ValueError.
\<close>

definition iter_content :: "nat \<Rightarrow> string list \<Rightarrow> string list \<times> error option" where
  "iter_content limit chunks =
     (let ls = split_lines (concat chunks);
          read = takeWhile (\<lambda>l. length l \<le> limit) ls
      in (read, if length read < length ls then Some (LibraryError ''ValueError'') else None))"

text \<open>A chunk that is one whole line: it ends with a newline and has no other.\<close>

definition is_line :: "string \<Rightarrow> bool" where
  "is_line c = (c \<noteq> [] \<and> last c = newline \<and> newline \<notin> set (butlast c))"

text \<open>
  The HTTP status constants of the module \<^verbatim>\<open>fastapi.status\<close> (it is
  \<^verbatim>\<open>starlette.status\<close>), by name. Reading an attribute that the module does not
  have raises AttributeError.
\<close>

definition fastapi_status :: "(string \<times> nat) list" where
  "fastapi_status =
     [(''HTTP_100_CONTINUE'', 100), (''HTTP_101_SWITCHING_PROTOCOLS'', 101),
      (''HTTP_102_PROCESSING'', 102), (''HTTP_103_EARLY_HINTS'', 103),
      (''HTTP_200_OK'', 200), (''HTTP_201_CREATED'', 201), (''HTTP_202_ACCEPTED'', 202),
      (''HTTP_203_NON_AUTHORITATIVE_INFORMATION'', 203), (''HTTP_204_NO_CONTENT'', 204),
      (''HTTP_205_RESET_CONTENT'', 205), (''HTTP_206_PARTIAL_CONTENT'', 206),
      (''HTTP_207_MULTI_STATUS'', 207), (''HTTP_208_ALREADY_REPORTED'', 208),
      (''HTTP_226_IM_USED'', 226),
      (''HTTP_300_MULTIPLE_CHOICES'', 300), (''HTTP_301_MOVED_PERMANENTLY'', 301),
      (''HTTP_302_FOUND'', 302), (''HTTP_303_SEE_OTHER'', 303),
      (''HTTP_304_NOT_MODIFIED'', 304), (''HTTP_305_USE_PROXY'', 305),
      (''HTTP_306_RESERVED'', 306), (''HTTP_307_TEMPORARY_REDIRECT'', 307),
      (''HTTP_308_PERMANENT_REDIRECT'', 308),
      (''HTTP_400_BAD_REQUEST'', 400), (''HTTP_401_UNAUTHORIZED'', 401),
      (''HTTP_402_PAYMENT_REQUIRED'', 402), (''HTTP_403_FORBIDDEN'', 403),
      (''HTTP_404_NOT_FOUND'', 404), (''HTTP_405_METHOD_NOT_ALLOWED'', 405),
      (''HTTP_406_NOT_ACCEPTABLE'', 406),
      (''HTTP_407_PROXY_AUTHENTICATION_REQUIRED'', 407),
      (''HTTP_408_REQUEST_TIMEOUT'', 408), (''HTTP_409_CONFLICT'', 409),
      (''HTTP_410_GONE'', 410), (''HTTP_411_LENGTH_REQUIRED'', 411),
      (''HTTP_412_PRECONDITION_FAILED'', 412),
      (''HTTP_413_REQUEST_ENTITY_TOO_LARGE'', 413),
      (''HTTP_414_REQUEST_URI_TOO_LONG'', 414),
      (''HTTP_415_UNSUPPORTED_MEDIA_TYPE'', 415),
      (''HTTP_416_REQUESTED_RANGE_NOT_SATISFIABLE'', 416),
      (''HTTP_417_EXPECTATION_FAILED'', 417), (''HTTP_418_IM_A_TEAPOT'', 418),
      (''HTTP_421_MISDIRECTED_REQUEST'', 421), (''HTTP_422_UNPROCESSABLE_ENTITY'', 422),
      (''HTTP_423_LOCKED'', 423), (''HTTP_424_FAILED_DEPENDENCY'', 424),
      (''HTTP_425_TOO_EARLY'', 425), (''HTTP_426_UPGRADE_REQUIRED'', 426),
      (''HTTP_428_PRECONDITION_REQUIRED'', 428), (''HTTP_429_TOO_MANY_REQUESTS'', 429),
      (''HTTP_431_REQUEST_HEADER_FIELDS_TOO_LARGE'', 431),
      (''HTTP_451_UNAVAILABLE_FOR_LEGAL_REASONS'', 451),
      (''HTTP_500_INTERNAL_SERVER_ERROR'', 500), (''HTTP_501_NOT_IMPLEMENTED'', 501),
      (''HTTP_502_BAD_GATEWAY'', 502), (''HTTP_503_SERVICE_UNAVAILABLE'', 503),
      (''HTTP_504_GATEWAY_TIMEOUT'', 504),
      (''HTTP_505_HTTP_VERSION_NOT_SUPPORTED'', 505),
      (''HTTP_506_VARIANT_ALSO_NEGOTIATES'', 506),
      (''HTTP_507_INSUFFICIENT_STORAGE'', 507), (''HTTP_508_LOOP_DETECTED'', 508),
      (''HTTP_510_NOT_EXTENDED'', 510),
      (''HTTP_511_NETWORK_AUTHENTICATION_REQUIRED'', 511)]"

definition status_attribute :: "string \<Rightarrow> error + nat" where
  "status_attribute name =
     (case map_of fastapi_status name of
        None \<Rightarrow> Inl (AttributeError name)
      | Some code \<Rightarrow> Inr code)"

text \<open>\<^verbatim>\<open>s.lower()\<close> on the ASCII letters.\<close>

definition lower :: "string \<Rightarrow> string" where
  "lower s = map (\<lambda>c. if is_upper c then char_of ((of_char c :: nat) + 32) else c) s"

text \<open>
  \<^verbatim>\<open>Cord._passthrough_call\<close>, up to its \<^verbatim>\<open>yield\<close>: one request to the sidecar on
  \<^verbatim>\<open>127.0.0.1\<close>, at the captured port or else 8000, with the lowercased method name
  as the method of the session that is looked up and called.
\<close>

definition passthrough_target :: "cord \<Rightarrow> (string \<times> pyval) list \<Rightarrow> sidecar_request" where
  "passthrough_target self kwargs =
     \<lparr>base_port = (case passthrough_port self of
                      None \<Rightarrow> 8000
                    | Some p \<Rightarrow> if p = 0 then 8000 else p),
      verb = lower (http_method self),
      target = passthrough_path self,
      call_kwargs = kwargs\<rparr>"

definition passthrough_call ::
  "server \<Rightarrow> cord \<Rightarrow> (string \<times> pyval) list \<Rightarrow> nat \<Rightarrow> (error + sidecar_response) \<times> nat" where
  "passthrough_call srv self kwargs n = (sidecar srv n (passthrough_target self kwargs), Suc n)"

text \<open>
  \<^verbatim>\<open>Cord._remote_call\<close>. The state is the number of requests sent to the sidecar.
\<close>

definition remote_call ::
  "server \<Rightarrow> cord \<Rightarrow> pyval list \<Rightarrow> (string \<times> pyval) list \<Rightarrow> nat \<Rightarrow> (error + pyval) \<times> nat" where
  "remote_call srv self args kwargs n =
     (case func self of
        None \<Rightarrow> (Inl (AttributeError ''_func''), n)
      | Some f \<Rightarrow>
          if passthrough self then
            (case passthrough_call srv self kwargs n of
               (Inl e, n') \<Rightarrow> (Inl e, n')
             | (Inr response, n') \<Rightarrow> (json_result response, n'))
          else (fcall f args kwargs, n))"

text \<open>
  \<^verbatim>\<open>Cord._remote_stream_call\<close>: the items it yields and the exception that ends it,
  if any.
\<close>

definition remote_stream_call ::
  "server \<Rightarrow> cord \<Rightarrow> pyval list \<Rightarrow> (string \<times> pyval) list \<Rightarrow> nat
     \<Rightarrow> (pyval list \<times> error option) \<times> nat" where
  "remote_stream_call srv self args kwargs n =
     (case func self of
        None \<Rightarrow> (([], Some (AttributeError ''_func'')), n)
      | Some f \<Rightarrow>
          if passthrough self then
            (case passthrough_call srv self kwargs n of
               (Inl e, n') \<Rightarrow> (([], Some e), n')
             | (Inr response, n') \<Rightarrow>
                 (case iter_content (high_water srv) (body_chunks response) of
                    (read, err) \<Rightarrow> ((map PBytes read, err), n')))
          else (fgen f args kwargs, n))"

text \<open>
  \<^verbatim>\<open>fickling.load(gzip.decompress(base64.b64decode(request[key])))\<close>
\<close>

definition decode_argument :: "server \<Rightarrow> pyval \<Rightarrow> string \<Rightarrow> error + pyval" where
  "decode_argument srv request key =
     (case request of
        PDict kvs \<Rightarrow>
          (case map_of kvs key of
             None \<Rightarrow> Inl (KeyError key)
           | Some (PStr s) \<Rightarrow>
               (case b64decode srv s of
                  Inl e \<Rightarrow> Inl e
                | Inr compressed \<Rightarrow>
                    (case gzip_decompress srv compressed of
                       Inl e \<Rightarrow> Inl e
                     | Inr pickled \<Rightarrow> fickling_load srv pickled))
           | Some _ \<Rightarrow> Inl TypeError)
      | _ \<Rightarrow> Inl TypeError)"

text \<open>The body of the \<^verbatim>\<open>try\<close> of \<^verbatim>\<open>_request_handler\<close>.\<close>

definition decode_arguments :: "server \<Rightarrow> pyval \<Rightarrow> error + pyval \<times> pyval" where
  "decode_arguments srv request =
     (case decode_argument srv request ''args'' of
        Inl e \<Rightarrow> Inl e
      | Inr args \<Rightarrow>
          (case decode_argument srv request ''kwargs'' of
             Inl e \<Rightarrow> Inl e
           | Inr kwargs \<Rightarrow> Inr (args, kwargs)))"

text \<open>\<^verbatim>\<open>*args\<close> and \<^verbatim>\<open>**kwargs\<close> in a call.\<close>

definition unpack_positional :: "pyval \<Rightarrow> error + pyval list" where
  "unpack_positional v =
     (case v of
        PTuple xs \<Rightarrow> Inr xs
      | PList xs \<Rightarrow> Inr xs
      | PStr s \<Rightarrow> Inr (map (\<lambda>c. PStr [c]) s)
      | PBytes s \<Rightarrow> Inr (map (\<lambda>c. PInt (of_char c)) s)
      | PDict kvs \<Rightarrow> Inr (map (\<lambda>(k, x). PStr k) kvs)
      | _ \<Rightarrow> Inl TypeError)"

definition unpack_keywords :: "pyval \<Rightarrow> error + (string \<times> pyval) list" where
  "unpack_keywords v = (case v of PDict kvs \<Rightarrow> Inr kvs | _ \<Rightarrow> Inl TypeError)"

text \<open>
  \<^verbatim>\<open>Cord._request_handler\<close>. The inbound request is given by the port of its URL and
  by what \<^verbatim>\<open>await request.json()\<close> gives. The result is what the handler returns or
  the exception it raises, the cord afterwards, and the number of sidecar requests.
\<close>

record inbound =
  url_port :: "nat option"
  json_body :: "error + pyval"

datatype handled = Returned pyval | StreamingResponse "pyval list" "error option"

definition request_handler ::
  "server \<Rightarrow> cord \<Rightarrow> inbound \<Rightarrow> nat \<Rightarrow> (error + handled) \<times> cord \<times> nat" where
  "request_handler srv self req n =
     (let self1 = (if passthrough_port self = None
                   then self\<lparr>passthrough_port := url_port req\<rparr> else self)
      in case json_body req of
           Inl e \<Rightarrow> (Inl e, self1, n)
         | Inr request \<Rightarrow>
             (case decode_arguments srv request of
                Inl (UnsafeFileError exc) \<Rightarrow>
                  (let message = ''Detected potentially hazardous call arguments, blocking: ''
                                   @ exc
                   in case status_attribute ''HTTP_401_FORBIDDEN'' of
                        Inl e \<Rightarrow> (Inl e, self1, n)
                      | Inr code \<Rightarrow> (Inl (HTTPException code message), self1, n))
              | Inl e \<Rightarrow> (Inl e, self1, n)
              | Inr (args, kwargs) \<Rightarrow>
                  (case unpack_positional args of
                     Inl e \<Rightarrow> (Inl e, self1, n)
                   | Inr xs \<Rightarrow>
                       (case unpack_keywords kwargs of
                          Inl e \<Rightarrow> (Inl e, self1, n)
                        | Inr kvs \<Rightarrow>
                            if stream self1 then
                              (case remote_stream_call srv self1 xs kvs n of
                                 ((items, err), n') \<Rightarrow>
                                   (Inr (StreamingResponse items err), self1, n'))
                            else
                              (case remote_call srv self1 xs kvs n of
                                 (Inl e, n') \<Rightarrow> (Inl e, self1, n')
                               | (Inr v, n') \<Rightarrow> (Inr (Returned v), self1, n'))))))"

section \<open>Example data of the remote side\<close>

text \<open>
  A toy serialisation of three values, its inverse, which rejects the payload
  \<open>os.system\<close> as unsafe, and a toy compression and encoding that put a tag in front.
\<close>

definition example_dumps :: "pyval \<Rightarrow> error + string" where
  "example_dumps v =
     (case map_of [(PTuple [PInt 41], ''(41,)''), (PTuple [], ''()''), (PDict [], ''{}'')] v of
        None \<Rightarrow> Inl (LibraryError ''PicklingError'')
      | Some s \<Rightarrow> Inr s)"

definition example_load :: "string \<Rightarrow> error + pyval" where
  "example_load s =
     (if s = ''os.system'' then Inl (UnsafeFileError ''call to os.system'')
      else (case map_of [(''(41,)'', PTuple [PInt 41]), (''()'', PTuple []), (''{}'', PDict [])] s of
              None \<Rightarrow> Inl (LibraryError ''UnpicklingError'')
            | Some v \<Rightarrow> Inr v))"

definition untagged :: "string \<Rightarrow> string \<Rightarrow> error + string" where
  "untagged t s =
     (if startswith s t then Inr (drop (length t) s) else Inl (LibraryError ''invalid input''))"

text \<open>A calling side and a remote side that use the toy codec.\<close>

definition codec_client :: client where
  "codec_client =
     (example_client (streaming_remote []))
       \<lparr>pickle_dumps := example_dumps, gzip_compress := (\<lambda>b. ''gz:'' @ b),
        b64encode := (\<lambda>b. ''b64:'' @ b)\<rparr>"

definition example_server :: "(nat \<Rightarrow> error + sidecar_response) \<Rightarrow> server" where
  "example_server side =
     \<lparr>b64decode = untagged ''b64:'', gzip_decompress = untagged ''gz:'',
      fickling_load = example_load, sidecar = (\<lambda>n req. side n), high_water = 131072\<rparr>"

text \<open>
  Five sidecars: one that answers with status 200 and the JSON body \<^verbatim>\<open>{"x": 1}\<close>;
  one that sends its body as the two lines \<^verbatim>\<open>b"1\n"\<close> and \<^verbatim>\<open>b"2\n"\<close>; one
  that sends its body as the two chunks \<^verbatim>\<open>b"1"\<close> and \<^verbatim>\<open>b"2"\<close>; one that
  answers with status 500 and a JSON body; and the sidecar that cannot be reached.
\<close>

definition sidecar_json :: "nat \<Rightarrow> error + sidecar_response" where
  \<open>sidecar_json n =
     Inr \<lparr>sidecar_status = 200, body_chunks = [''{"x": 1}''],
          json_result = Inr (PDict [(''x'', PInt 1)])\<rparr>\<close>

definition sidecar_lines :: "nat \<Rightarrow> error + sidecar_response" where
  "sidecar_lines n =
     Inr \<lparr>sidecar_status = 200, body_chunks = [''1\<newline>'', ''2\<newline>''],
          json_result = Inl (LibraryError ''JSONDecodeError'')\<rparr>"

definition sidecar_chunks :: "nat \<Rightarrow> error + sidecar_response" where
  "sidecar_chunks n =
     Inr \<lparr>sidecar_status = 200, body_chunks = [''1'', ''2''],
          json_result = Inr (PInt 12)\<rparr>"

definition sidecar_failing :: "nat \<Rightarrow> error + sidecar_response" where
  \<open>sidecar_failing n =
     Inr \<lparr>sidecar_status = 500, body_chunks = [''{"detail": "Internal Server Error"}''],
          json_result = Inr (PDict [(''detail'', PStr ''Internal Server Error'')])\<rparr>\<close>

definition sidecar_down :: "nat \<Rightarrow> error + sidecar_response" where
  "sidecar_down n = Inl (LibraryError ''ClientConnectorError'')"

text \<open>A bound cord in passthrough mode.\<close>

definition passthrough_cord :: cord where
  "passthrough_cord = (bound_cord 0 ''foo'')\<lparr>passthrough := True\<rparr>"

text \<open>An inbound request whose positional arguments are the unsafe payload.\<close>

definition hostile_request :: inbound where
  "hostile_request =
     \<lparr>url_port = Some 8000,
      json_body = Inr (PDict [(''args'', PStr ''b64:gz:os.system''),
                              (''kwargs'', PStr ''b64:gz:{}'')])\<rparr>"

section \<open>The path grammar and the regular expression\<close>

lemma nullable_iff: "nullable r \<longleftrightarrow> [] \<in> lang r"
  by (induction r) (auto simp: conc_def intro: star.intros)

lemma star_Cons_iff:
  "c # w \<in> star A \<longleftrightarrow> (\<exists>u v. w = u @ v \<and> c # u \<in> A \<and> v \<in> star A)"
proof
  assume "c # w \<in> star A"
  then show "\<exists>u v. w = u @ v \<and> c # u \<in> A \<and> v \<in> star A"
  proof (induction "c # w" rule: star.induct)
    case (star_App u v)
    then show ?case by (cases u) auto
  qed
next
  assume "\<exists>u v. w = u @ v \<and> c # u \<in> A \<and> v \<in> star A"
  then obtain u v where "w = u @ v" "c # u \<in> A" "v \<in> star A" by blast
  then show "c # w \<in> star A" using star.star_App[of "c # u" A v] by simp
qed

lemma conc_Cons_iff:
  "c # w \<in> conc A B \<longleftrightarrow>
     (\<exists>u v. w = u @ v \<and> c # u \<in> A \<and> v \<in> B) \<or> ([] \<in> A \<and> c # w \<in> B)"
  unfolding conc_def by (auto simp: append_eq_Cons_conv Cons_eq_append_conv)

lemma lang_deriv: "w \<in> lang (deriv c r) \<longleftrightarrow> c # w \<in> lang r"
proof (induction r arbitrary: w)
  case (Seq a b)
  then show ?case
    by (auto simp: conc_Cons_iff nullable_iff) (auto simp: conc_def)
next
  case (Star a)
  then show ?case by (auto simp: star_Cons_iff conc_def)
next
  case (Plus a)
  then show ?case
    apply (auto simp: conc_Cons_iff star_Cons_iff)
    apply (auto simp: conc_def)
    done
qed (auto simp: conc_def)

lemma fullmatch_iff: "fullmatch r w \<longleftrightarrow> w \<in> lang r"
  by (induction w arbitrary: r) (auto simp: nullable_iff lang_deriv)

lemma in_cls_lower_digit: "in_cls cls_lower_digit c = is_lower_or_digit c"
  by (simp add: in_cls_def cls_lower_digit_def is_lower_or_digit_def)

lemma of_char_eq_iff_nat: "((of_char c :: nat) = of_char d) = (c = d)"
  by simp

lemma in_cls_segment_char: "in_cls cls_lower_digit_hyphen_underscore c = is_segment_char c"
proof -
  have "((of_char (CHR ''-'') :: nat) \<le> of_char c \<and> (of_char c :: nat) \<le> of_char (CHR ''-'')) = (c = CHR ''-'')"
    by (metis of_char_eq_iff_nat le_antisym order_refl)
  moreover have "((of_char (CHR ''_'') :: nat) \<le> of_char c \<and> (of_char c :: nat) \<le> of_char (CHR ''_'')) = (c = CHR ''_'')"
    by (metis of_char_eq_iff_nat le_antisym order_refl)
  ultimately show ?thesis
    unfolding in_cls_def cls_lower_digit_hyphen_underscore_def is_segment_char_def is_lower_or_digit_def
    by (simp del: of_char_Char) (simp)
qed

lemma in_cls_slash: "in_cls [(slash, slash)] c = (c = slash)"
  unfolding in_cls_def by (auto simp: le_antisym)

lemma star_cls_iff: "w \<in> star {[c] | c. P c} \<longleftrightarrow> list_all P w"
proof
  assume "w \<in> star {[c] | c. P c}"
  then show "list_all P w" by (induction rule: star.induct) auto
next
  assume "list_all P w"
  then show "w \<in> star {[c] | c. P c}"
  proof (induction w)
    case Nil
    show ?case by (rule star.star_Nil)
  next
    case (Cons a w)
    then have "[a] \<in> {[c] | c. P c}" "w \<in> star {[c] | c. P c}" by auto
    then have "[a] @ w \<in> star {[c] | c. P c}" by (rule star.star_App)
    then show ?case by simp
  qed
qed

lemma lower_digit_segment_char: "is_lower_or_digit c \<Longrightarrow> is_segment_char c"
  by (simp add: is_segment_char_def)

lemma lang_segment:
  "w \<in> lang (Seq (Plus (Cls cls_lower_digit)) (Star (Cls cls_lower_digit_hyphen_underscore)))
     \<longleftrightarrow> segment_ok w"
proof
  assume "w \<in> lang (Seq (Plus (Cls cls_lower_digit)) (Star (Cls cls_lower_digit_hyphen_underscore)))"
  then obtain c u v where w: "w = (c # u) @ v" and c: "is_lower_or_digit c"
    and u: "list_all is_lower_or_digit u" and v: "list_all is_segment_char v"
    by (auto simp: conc_def star_cls_iff in_cls_lower_digit in_cls_segment_char)
  from u have "list_all is_segment_char u"
    by (induction u) (auto simp: lower_digit_segment_char)
  with w c v show "segment_ok w" by (simp add: segment_ok_def)
next
  assume "segment_ok w"
  then obtain c cs where w: "w = c # cs" and c: "is_lower_or_digit c"
    and cs: "list_all is_segment_char cs"
    by (auto simp: segment_ok_def split: list.splits)
  have "[c] @ [] \<in> conc {[c] | c. is_lower_or_digit c} (star {[c] | c. is_lower_or_digit c})"
    unfolding conc_def using c star.star_Nil by blast
  moreover have "cs \<in> star {[c] | c. is_segment_char c}"
    using cs by (simp add: star_cls_iff)
  ultimately have "([c] @ []) @ cs \<in> conc (conc {[c] | c. is_lower_or_digit c} (star {[c] | c. is_lower_or_digit c})) (star {[c] | c. is_segment_char c})"
    unfolding conc_def by blast
  then show "w \<in> lang (Seq (Plus (Cls cls_lower_digit)) (Star (Cls cls_lower_digit_hyphen_underscore)))"
    by (simp add: w in_cls_lower_digit in_cls_segment_char)
qed

lemma lang_group:
  "lang (Seq (Cls [(slash, slash)])
            (Seq (Plus (Cls cls_lower_digit)) (Star (Cls cls_lower_digit_hyphen_underscore))))
   = group_lang"
proof -
  have "\<And>w. w \<in> conc {[c] | c. c = slash} {w. segment_ok w} \<longleftrightarrow> w \<in> group_lang"
    unfolding conc_def group_lang_def by auto
  moreover have "lang (Seq (Plus (Cls cls_lower_digit)) (Star (Cls cls_lower_digit_hyphen_underscore))) = {w. segment_ok w}"
    using lang_segment by blast
  ultimately show ?thesis
    by (simp only: lang.simps(5)[of "Cls [(slash, slash)]"] lang.simps(3) in_cls_slash) blast
qed

lemma star_group_iff:
  "w \<in> star group_lang \<longleftrightarrow> (\<exists>segs. list_all segment_ok segs \<and> w = join_segments segs)"
proof
  assume "w \<in> star group_lang"
  then show "\<exists>segs. list_all segment_ok segs \<and> w = join_segments segs"
  proof (induction rule: star.induct)
    case star_Nil
    have "list_all segment_ok [] \<and> [] = join_segments []" by (simp add: join_segments_def)
    then show ?case by blast
  next
    case (star_App u v)
    then obtain seg segs where "u = slash # seg" "segment_ok seg"
      "list_all segment_ok segs" "v = join_segments segs"
      by (auto simp: group_lang_def)
    then have "list_all segment_ok (seg # segs) \<and> u @ v = join_segments (seg # segs)"
      by (simp add: join_segments_def)
    then show ?case by blast
  qed
next
  assume "\<exists>segs. list_all segment_ok segs \<and> w = join_segments segs"
  then obtain segs where "list_all segment_ok segs" "w = join_segments segs" by blast
  then show "w \<in> star group_lang"
  proof (induction segs arbitrary: w)
    case Nil
    then show ?case by (simp add: join_segments_def star.star_Nil)
  next
    case (Cons seg segs)
    then have "slash # seg \<in> group_lang" "join_segments segs \<in> star group_lang"
      by (auto simp: group_lang_def)
    then have "(slash # seg) @ join_segments segs \<in> star group_lang" by (rule star.star_App)
    with Cons.prems show ?case by (simp add: join_segments_def)
  qed
qed

lemma lang_PATH_RE_body:
  "w \<in> lang PATH_RE_body \<longleftrightarrow>
     (\<exists>segs. segs \<noteq> [] \<and> list_all segment_ok segs \<and> w = join_segments segs)"
proof -
  have "w \<in> lang PATH_RE_body \<longleftrightarrow> w \<in> conc group_lang (star group_lang)"
    unfolding PATH_RE_body_def by (simp only: lang.simps(7) lang_group)
  also have "\<dots> \<longleftrightarrow> (\<exists>seg segs. segment_ok seg \<and> list_all segment_ok segs \<and> w = join_segments (seg # segs))"
  proof -
    have "w \<in> conc group_lang (star group_lang) \<longleftrightarrow>
            (\<exists>seg v. segment_ok seg \<and> v \<in> star group_lang \<and> w = (slash # seg) @ v)"
      unfolding conc_def by (subst (1) group_lang_def) blast
    also have "\<dots> \<longleftrightarrow> (\<exists>seg segs. segment_ok seg \<and> list_all segment_ok segs \<and> w = (slash # seg) @ join_segments segs)"
      unfolding star_group_iff by blast
    finally show ?thesis by (simp add: join_segments_def)
  qed
  also have "\<dots> \<longleftrightarrow> (\<exists>segs. segs \<noteq> [] \<and> list_all segment_ok segs \<and> w = join_segments segs)"
  proof
    assume "\<exists>seg segs. segment_ok seg \<and> list_all segment_ok segs \<and> w = join_segments (seg # segs)"
    then obtain seg segs where "list_all segment_ok (seg # segs)" "w = join_segments (seg # segs)"
      by auto
    then show "\<exists>segs. segs \<noteq> [] \<and> list_all segment_ok segs \<and> w = join_segments segs"
      by blast
  next
    assume "\<exists>segs. segs \<noteq> [] \<and> list_all segment_ok segs \<and> w = join_segments segs"
    then obtain segs where "segs \<noteq> []" "list_all segment_ok segs" "w = join_segments segs"
      by blast
    then show "\<exists>seg segs. segment_ok seg \<and> list_all segment_ok segs \<and> w = join_segments (seg # segs)"
      by (cases segs) auto
  qed
  finally show ?thesis .
qed

lemma split_on_not_Nil: "split_on c s \<noteq> []"
  by (induction s) (auto split: list.splits)

lemma split_on_no_sep: "c \<notin> set u \<Longrightarrow> split_on c u = [u]"
  by (induction u) auto

lemma split_on_append_sep: "c \<notin> set u \<Longrightarrow> split_on c (u @ c # v) = u # split_on c v"
  by (induction u) (auto split: list.splits)

lemma split_on_join:
  "split_on slash s = l # ls \<Longrightarrow> s = l @ join_segments ls"
proof (induction s arbitrary: l ls)
  case Nil
  then show ?case by (simp add: join_segments_def)
next
  case (Cons x xs)
  show ?case
  proof (cases "x = slash")
    case True
    with Cons.prems have l: "l = []" and ls: "split_on slash xs = ls" by auto
    from split_on_not_Nil[of slash xs] ls obtain w ws where wws: "ls = w # ws"
      by (cases ls) auto
    with ls Cons.IH have "xs = w @ join_segments ws" by blast
    with True l wws show ?thesis by (simp add: join_segments_def)
  next
    case False
    from split_on_not_Nil[of slash xs] obtain w ws where wws: "split_on slash xs = w # ws"
      by (cases "split_on slash xs") auto
    with False Cons.prems have "l = x # w" "ls = ws" by auto
    moreover from wws Cons.IH have "xs = w @ join_segments ws" by blast
    ultimately show ?thesis by simp
  qed
qed

lemma split_on_segments:
  "\<forall>s \<in> set (seg # segs). slash \<notin> set s \<Longrightarrow>
     split_on slash (seg @ join_segments segs) = seg # segs"
proof (induction segs arbitrary: seg)
  case Nil
  then show ?case by (simp add: join_segments_def split_on_no_sep)
next
  case (Cons s segs)
  then have "split_on slash (s @ join_segments segs) = s # segs" by simp
  moreover have "seg @ join_segments (s # segs) = seg @ slash # (s @ join_segments segs)"
    by (simp add: join_segments_def)
  ultimately show ?case using Cons.prems by (simp add: split_on_append_sep)
qed

lemma is_segment_char_not_slash: "is_segment_char c \<Longrightarrow> c \<noteq> slash"
  by (auto simp: is_segment_char_def is_lower_or_digit_def slash_def)

lemma segment_ok_no_slash: "segment_ok seg \<Longrightarrow> slash \<notin> set seg"
proof -
  assume "segment_ok seg"
  then have "list_all is_segment_char seg"
    by (auto simp: segment_ok_def is_segment_char_def split: list.splits)
  then show ?thesis
    using is_segment_char_not_slash by (auto simp: list_all_iff)
qed

lemma path_grammar_iff_segments:
  "path_grammar p \<longleftrightarrow>
     (\<exists>segs. segs \<noteq> [] \<and> list_all segment_ok segs \<and> p = join_segments segs)"
proof
  assume "path_grammar p"
  then obtain segs where s: "split_on slash p = [] # segs" and ne: "segs \<noteq> []"
    and ok: "list_all segment_ok segs"
    by (auto simp: path_grammar_def split: list.splits)
  from split_on_join[OF s] have "p = join_segments segs" by simp
  with ne ok show "\<exists>segs. segs \<noteq> [] \<and> list_all segment_ok segs \<and> p = join_segments segs"
    by blast
next
  assume "\<exists>segs. segs \<noteq> [] \<and> list_all segment_ok segs \<and> p = join_segments segs"
  then obtain segs where ne: "segs \<noteq> []" and ok: "list_all segment_ok segs"
    and p: "p = join_segments segs" by blast
  from ok have "\<forall>s \<in> set ([] # segs). slash \<notin> set s"
    by (auto simp: list_all_iff segment_ok_no_slash)
  from split_on_segments[OF this] p have "split_on slash p = [] # segs" by simp
  with ne ok show "path_grammar p" by (simp add: path_grammar_def)
qed

text \<open>
  The regular expression of the source accepts, as a whole string, exactly the paths of
  the grammar.
\<close>

lemma fullmatch_PATH_RE_body: "fullmatch PATH_RE_body p = path_grammar p"
  by (simp add: fullmatch_iff lang_PATH_RE_body path_grammar_iff_segments)

lemma contains_split_empty:
  "contains s [c, c] \<Longrightarrow> [] \<in> set (tl (split_on c s))"
proof (induction s)
  case Nil
  then show ?case by simp
next
  case (Cons x xs)
  show ?case
  proof (cases "startswith (x # xs) [c, c]")
    case True
    then obtain ys where "x = c" "xs = c # ys" by (cases xs) auto
    then show ?thesis by simp
  next
    case False
    from Cons.prems have "startswith (x # xs) [c, c] \<or> contains xs [c, c]"
      by (simp only: contains.simps)
    with False have "contains xs [c, c]" by blast
    with Cons.IH have ih: "[] \<in> set (tl (split_on c xs))" by blast
    then show ?thesis
      using split_on_not_Nil[of c xs] by (cases "split_on c xs") auto
  qed
qed

lemma path_grammar_no_double_slash: "path_grammar p \<Longrightarrow> \<not> contains p [slash, slash]"
proof
  assume g: "path_grammar p" and c: "contains p [slash, slash]"
  from g obtain segs where "split_on slash p = [] # segs" "list_all segment_ok segs"
    by (auto simp: path_grammar_def split: list.splits)
  moreover from contains_split_empty[OF c] have "[] \<in> set (tl (split_on slash p))" .
  ultimately have "segment_ok []" by (auto simp: list_all_iff)
  then show False by (simp add: segment_ok_def)
qed

lemma contains_snoc:
  "x \<noteq> c \<Longrightarrow> contains (s @ [x]) [c, c] \<Longrightarrow> contains s [c, c]"
proof (induction s)
  case Nil
  then show ?case by simp
next
  case (Cons a s)
  show ?case
  proof (cases "startswith ((a # s) @ [x]) [c, c]")
    case True
    with Cons.prems(1) show ?thesis by (cases s) auto
  next
    case False
    from Cons.prems(2) have "startswith ((a # s) @ [x]) [c, c] \<or> contains (s @ [x]) [c, c]"
      by (simp only: append_Cons contains.simps)
    with False have "contains (s @ [x]) [c, c]" by blast
    with Cons.IH Cons.prems(1) have "contains s [c, c]" by blast
    then show ?thesis by (simp only: contains.simps) blast
  qed
qed

lemma path_valid_iff:
  "\<not> path_invalid p \<longleftrightarrow>
     path_grammar p \<or> (p \<noteq> [] \<and> last p = newline \<and> path_grammar (butlast p))"
proof -
  have nl: "newline \<noteq> slash" by (simp add: newline_def slash_def)
  have "p \<noteq> [] \<Longrightarrow> last p = newline \<Longrightarrow> path_grammar (butlast p) \<Longrightarrow>
          \<not> contains p [slash, slash]"
  proof
    assume a: "p \<noteq> []" "last p = newline" "path_grammar (butlast p)"
      and c: "contains p [slash, slash]"
    from a have "p = butlast p @ [newline]" by (metis append_butlast_last_id)
    with c contains_snoc[OF nl, of "butlast p"] have "contains (butlast p) [slash, slash]"
      by simp
    with a(3) show False using path_grammar_no_double_slash by blast
  qed
  then show ?thesis
    unfolding path_invalid_def PATH_RE_match_def re_match_def fullmatch_PATH_RE_body
    using path_grammar_no_double_slash by blast
qed

lemma path_grammar_shape:
  "path_grammar p \<Longrightarrow> \<exists>q. p = slash # q \<and> q \<noteq> [] \<and> hd q \<noteq> slash \<and> last q \<noteq> slash \<and> last q \<noteq> newline"
proof -
  assume "path_grammar p"
  then obtain segs where ne: "segs \<noteq> []" and ok: "list_all segment_ok segs"
    and p: "p = join_segments segs"
    by (auto simp: path_grammar_iff_segments)
  from ne obtain seg rest where sr: "segs = seg # rest" by (cases segs) auto
  from ne obtain front l where fl: "segs = front @ [l]" by (metis rev_exhaust)
  from ok sr have seg: "segment_ok seg" by simp
  from ok fl have l: "segment_ok l" by simp
  from seg obtain c cs where ccs: "seg = c # cs" "is_lower_or_digit c"
    by (auto simp: segment_ok_def split: list.splits)
  from l have lne: "l \<noteq> []" and lall: "list_all is_segment_char l"
    by (auto simp: segment_ok_def is_segment_char_def split: list.splits)
  from lne lall have "is_segment_char (last l)" by (simp add: list_all_iff)
  then have ll: "last l \<noteq> slash" "last l \<noteq> newline"
    by (auto simp: is_segment_char_def is_lower_or_digit_def slash_def newline_def)
  define q where "q = seg @ join_segments rest"
  have pq: "p = slash # q" by (simp add: p sr q_def join_segments_def)
  have "hd q = c" by (simp add: q_def ccs)
  with ccs(2) have hq: "hd q \<noteq> slash"
    by (auto simp: is_lower_or_digit_def slash_def)
  have "p = join_segments front @ slash # l" by (simp add: p fl join_segments_def)
  with lne have "last p = last l" by simp
  moreover have "q \<noteq> []" by (simp add: q_def ccs)
  ultimately have "last q = last l" using pq by simp
  with ll hq pq \<open>q \<noteq> []\<close> show ?thesis by auto
qed

lemma rstrip_id: "s \<noteq> [] \<Longrightarrow> last s \<noteq> c \<Longrightarrow> rstrip c s = s"
  by (cases s rule: rev_cases) (auto simp: rstrip_def)

lemma lstrip_one: "q \<noteq> [] \<Longrightarrow> hd q \<noteq> c \<Longrightarrow> lstrip c (c # q) = q"
  by (cases q) (auto simp: lstrip_def)

lemma normalize_path_grammar: "path_grammar p \<Longrightarrow> normalize_path p = p"
proof -
  assume "path_grammar p"
  from path_grammar_shape[OF this] obtain q where
    "p = slash # q" "q \<noteq> []" "hd q \<noteq> slash" "last q \<noteq> slash" by blast
  then show ?thesis by (simp add: normalize_path_def lstrip_one rstrip_id)
qed

lemma normalize_path_shape:
  "\<exists>r. normalize_path p = slash # r \<and> (r \<noteq> [] \<longrightarrow> hd r \<noteq> slash \<and> last r \<noteq> slash)"
proof -
  define l where "l = lstrip slash p"
  define r where "r = rstrip slash l"
  have hl: "l \<noteq> [] \<Longrightarrow> hd l \<noteq> slash"
    unfolding l_def lstrip_def using hd_dropWhile[of "\<lambda>x. x = slash" p] by simp
  have rr: "rev r = dropWhile (\<lambda>x. x = slash) (rev l)" by (simp add: r_def rstrip_def)
  have lr: "r \<noteq> [] \<Longrightarrow> last r \<noteq> slash"
  proof -
    assume "r \<noteq> []"
    then have "rev r \<noteq> []" by simp
    with rr hd_dropWhile[of "\<lambda>x. x = slash" "rev l"] have "hd (rev r) \<noteq> slash" by simp
    with \<open>r \<noteq> []\<close> show ?thesis by (simp add: hd_rev)
  qed
  have "\<exists>t. l = r @ t"
  proof -
    have "rev l = takeWhile (\<lambda>x. x = slash) (rev l) @ rev r"
      using rr by simp
    then have "l = r @ rev (takeWhile (\<lambda>x. x = slash) (rev l))"
      by (metis rev_append rev_rev_ident)
    then show ?thesis by blast
  qed
  then obtain t where "l = r @ t" by blast
  then have hr: "r \<noteq> [] \<Longrightarrow> hd r \<noteq> slash" using hl by (cases r) auto
  have "normalize_path p = slash # r" by (simp add: normalize_path_def r_def l_def)
  with hr lr show ?thesis by blast
qed

lemma set_normalize_path: "set (normalize_path p) \<subseteq> insert slash (set p)"
proof -
  have "set (rstrip slash (lstrip slash p)) \<subseteq> set p"
    unfolding rstrip_def lstrip_def
    by (metis (no_types, lifting) set_dropWhileD set_rev subsetI)
  then show ?thesis by (auto simp: normalize_path_def)
qed

lemma path_setter_cases:
  "path_setter cords self p =
     (if path_invalid (normalize_path p) then (Some (InvalidPath (normalize_path p)), self)
      else if list_ex (\<lambda>c. path c = Some (normalize_path p)) (cords (app self))
           then (Some (DuplicatePath (normalize_path p)), self)
      else (None, self\<lparr>path := Some (normalize_path p)\<rparr>))"
  by (simp add: path_setter_def Let_def)

lemma passthrough_path_setter_cases:
  "passthrough_path_setter self p =
     (if path_invalid (normalize_path p) then (Some (InvalidPath (normalize_path p)), self)
      else (None, self\<lparr>passthrough_path := Some (normalize_path p)\<rparr>))"
  by (simp add: passthrough_path_setter_def Let_def)

lemma normalize_path_not_Nil: "normalize_path p \<noteq> []"
  by (simp add: normalize_path_def)

lemma path_invalid_iff:
  "path_invalid n \<longleftrightarrow>
     \<not> path_grammar n \<and> \<not> (n \<noteq> [] \<and> last n = newline \<and> path_grammar (butlast n))"
  using path_valid_iff[of n] by blast

lemma cord_init_defaults:
  "cord_init cords a False None None False None ''POST'' ''GET'' 180 = Inr (cord_new a)"
  by (simp add: cord_init_def set_if_given_def cord_new_def)

section \<open>Setting the primary path\<close>

text \<open>
  C6, as amended. The path setter normalises the candidate to a slash followed by the
  candidate without its leading and trailing slashes, so that what follows the leading
  slash neither starts nor ends with a slash. If the normalised form matches the path
  grammar and no cord of the same chute already has this path, the setter succeeds and
  stores the normalised form; if a cord of the same chute has it, the setter raises
  DuplicatePath and the cord is unchanged. If the normalised form violates the grammar, and is not a
  path of the grammar followed by a single newline, the setter raises InvalidPath and
  the cord is unchanged; the same holds whenever the normalised form contains two
  slashes in a row.
\<close>

theorem path_setter_validates:
  "(\<exists>r. normalize_path p = slash # r \<and> (r \<noteq> [] \<longrightarrow> hd r \<noteq> slash \<and> last r \<noteq> slash)) \<and>
   (path_grammar (normalize_path p) \<and>
      \<not> list_ex (\<lambda>c. path c = Some (normalize_path p)) (cords (app self))
    \<longrightarrow> path_setter cords self p = (None, self\<lparr>path := Some (normalize_path p)\<rparr>)) \<and>
   (\<not> path_grammar (normalize_path p) \<and>
      \<not> (last (normalize_path p) = newline \<and> path_grammar (butlast (normalize_path p)))
    \<longrightarrow> path_setter cords self p = (Some (InvalidPath (normalize_path p)), self)) \<and>
   (contains (normalize_path p) [slash, slash]
    \<longrightarrow> path_setter cords self p = (Some (InvalidPath (normalize_path p)), self)) \<and>
   (path_grammar (normalize_path p) \<and>
      list_ex (\<lambda>c. path c = Some (normalize_path p)) (cords (app self))
    \<longrightarrow> path_setter cords self p = (Some (DuplicatePath (normalize_path p)), self))"
proof -
  have shape: "\<exists>r. normalize_path p = slash # r \<and> (r \<noteq> [] \<longrightarrow> hd r \<noteq> slash \<and> last r \<noteq> slash)"
    by (rule normalize_path_shape)
  have ok: "path_grammar (normalize_path p) \<Longrightarrow> \<not> path_invalid (normalize_path p)"
    by (simp add: path_invalid_iff)
  have bad: "\<not> path_grammar (normalize_path p) \<Longrightarrow>
      \<not> (last (normalize_path p) = newline \<and> path_grammar (butlast (normalize_path p))) \<Longrightarrow>
      path_invalid (normalize_path p)"
    by (simp add: path_invalid_iff)
  have dbl: "contains (normalize_path p) [slash, slash] \<Longrightarrow> path_invalid (normalize_path p)"
    by (simp add: path_invalid_def)
  show ?thesis
    using shape ok bad dbl by (simp add: path_setter_cases)
qed

text \<open>The candidates \<open>foo/\<close> (accepted as \<open>/foo\<close>) and \<open>Foo\<close> (rejected).\<close>

theorem path_setter_validates_witness:
  "(path_grammar (normalize_path ''foo/'') \<and>
      \<not> list_ex (\<lambda>c. path c = Some (normalize_path ''foo/'')) [] \<and>
      path_setter (\<lambda>a. []) (cord_new 0) ''foo/'' = (None, (cord_new 0)\<lparr>path := Some ''/foo''\<rparr>)) \<and>
   (\<not> path_grammar (normalize_path ''Foo'') \<and>
      \<not> (last (normalize_path ''Foo'') = newline \<and> path_grammar (butlast (normalize_path ''Foo''))) \<and>
      path_setter (\<lambda>a. []) (cord_new 0) ''Foo'' = (Some (InvalidPath ''/Foo''), cord_new 0))"
proof -
  have n1: "normalize_path ''foo/'' = ''/foo''" by code_simp
  have g1: "path_grammar (normalize_path ''foo/'')" by code_simp
  have d1: "\<not> list_ex (\<lambda>c. path c = Some (normalize_path ''foo/'')) []" by simp
  then have d1': "\<not> list_ex (\<lambda>c. path c = Some (normalize_path ''foo/''))
                      ((\<lambda>a. []) (app (cord_new 0)))" by simp
  have r1: "path_setter (\<lambda>a. []) (cord_new 0) ''foo/''
              = (None, (cord_new 0)\<lparr>path := Some (normalize_path ''foo/'')\<rparr>)"
    by (rule mp[OF path_setter_validates[of "''foo/''" "\<lambda>a. []" "cord_new 0",
                    THEN conjunct2, THEN conjunct1] conjI[OF g1 d1]])
  have n2: "normalize_path ''Foo'' = ''/Foo''" by code_simp
  have g2: "\<not> path_grammar (normalize_path ''Foo'')" by code_simp
  have l2: "\<not> (last (normalize_path ''Foo'') = newline \<and>
                path_grammar (butlast (normalize_path ''Foo'')))" by code_simp
  have r2: "path_setter (\<lambda>a. []) (cord_new 0) ''Foo''
              = (Some (InvalidPath (normalize_path ''Foo'')), cord_new 0)"
    by (rule mp[OF path_setter_validates[of "''Foo''" "\<lambda>a. []" "cord_new 0",
                    THEN conjunct2, THEN conjunct2, THEN conjunct1] conjI[OF g2 l2]])
  from r1 have r1': "path_setter (\<lambda>a. []) (cord_new 0) ''foo/''
              = (None, (cord_new 0)\<lparr>path := Some ''/foo''\<rparr>)" by (simp only: n1)
  from r2 have r2': "path_setter (\<lambda>a. []) (cord_new 0) ''Foo''
              = (Some (InvalidPath ''/Foo''), cord_new 0)" by (simp only: n2)
  show ?thesis
    by (intro conjI g1 d1 r1' g2 l2 r2')
qed

text \<open>
  C6 as it is written fails twice. The candidate \<open>foo\<close> normalises to a path of the
  grammar, yet the setter raises DuplicatePath when a cord of the same chute already has
  \<open>/foo\<close>. The candidate \<open>foo\<close> followed by a newline does not normalise to a path
  of the grammar, yet the setter accepts and stores it.
\<close>

theorem path_setter_counterexample:
  "(path_grammar (normalize_path ''foo'') \<and>
     path_setter (\<lambda>a. [(cord_new 0)\<lparr>path := Some ''/foo''\<rparr>]) (cord_new 0) ''foo''
       = (Some (DuplicatePath ''/foo''), cord_new 0)) \<and>
   (\<not> path_grammar (normalize_path ''foo\<newline>'') \<and>
     path_setter (\<lambda>a. []) (cord_new 0) ''foo\<newline>''
       = (None, (cord_new 0)\<lparr>path := Some ''/foo\<newline>''\<rparr>))"
proof -
  have n1: "normalize_path ''foo'' = ''/foo''" by code_simp
  have g1: "path_grammar (normalize_path ''foo'')" by code_simp
  have v1: "\<not> path_invalid ''/foo''" by code_simp
  have r1: "path_setter (\<lambda>a. [(cord_new 0)\<lparr>path := Some ''/foo''\<rparr>]) (cord_new 0) ''foo''
       = (Some (DuplicatePath ''/foo''), cord_new 0)"
    by (simp add: path_setter_cases n1 v1 cord_new_def)
  have n2: "normalize_path ''foo\<newline>'' = ''/foo\<newline>''" by code_simp
  have g2: "\<not> path_grammar (normalize_path ''foo\<newline>'')" by code_simp
  have v2: "\<not> path_invalid ''/foo\<newline>''" by code_simp
  have r2: "path_setter (\<lambda>a. []) (cord_new 0) ''foo\<newline>''
       = (None, (cord_new 0)\<lparr>path := Some ''/foo\<newline>''\<rparr>)"
    by (simp add: path_setter_cases n2 v2)
  show ?thesis by (intro conjI g1 r1 g2 r2)
qed


section \<open>Duplicate paths\<close>

text \<open>
  C7. Let a first registration have succeeded and its cord be among the cords of its
  chute. A second cord of the same chute whose candidate has the same normalised form is
  rejected with DuplicatePath. A cord of a different chute, none of whose cords has that
  path, is accepted with the same normalised path. The passthrough setter validates like
  the primary setter does on a chute without cords, accepts even a candidate that the
  primary setter rejects as a duplicate, and never raises DuplicatePath.
\<close>

theorem duplicate_path_per_owner:
  "(path_setter cords c1 p1 = (None, c1') \<and> app c2 = app c1 \<and> c1' \<in> set (cords' (app c1)) \<and>
      normalize_path p2 = normalize_path p1
    \<longrightarrow> path_setter cords' c2 p2 = (Some (DuplicatePath (normalize_path p2)), c2)) \<and>
   (path_setter cords c1 p1 = (None, c1') \<and> app c2 \<noteq> app c1 \<and> c1' \<in> set (cords' (app c1)) \<and>
      normalize_path p2 = normalize_path p1 \<and>
      (\<forall>c \<in> set (cords' (app c2)). path c \<noteq> Some (normalize_path p2))
    \<longrightarrow> path_setter cords' c2 p2 = (None, c2\<lparr>path := Some (normalize_path p2)\<rparr>)) \<and>
   (fst (passthrough_path_setter c2 p2) = fst (path_setter (\<lambda>a. []) c2 p2)) \<and>
   (path_setter cords' c2 p2 = (Some (DuplicatePath (normalize_path p2)), c2)
    \<longrightarrow> passthrough_path_setter c2 p2 = (None, c2\<lparr>passthrough_path := Some (normalize_path p2)\<rparr>)) \<and>
   (\<forall>d. fst (passthrough_path_setter c2 p2) \<noteq> Some (DuplicatePath d))"
proof -
  have reg: "path_setter cords c1 p1 = (None, c1') \<Longrightarrow>
      \<not> path_invalid (normalize_path p1) \<and> path c1' = Some (normalize_path p1)"
    by (auto simp: path_setter_cases split: if_splits)
  have a: "path_setter cords' c2 p2 = (Some (DuplicatePath (normalize_path p2)), c2)"
    if "path_setter cords c1 p1 = (None, c1')" "app c2 = app c1"
      "c1' \<in> set (cords' (app c1))" "normalize_path p2 = normalize_path p1"
  proof -
    from reg[OF that(1)] that(4) have v: "\<not> path_invalid (normalize_path p2)"
      and pc: "path c1' = Some (normalize_path p2)" by simp_all
    from pc that(2,3) have "list_ex (\<lambda>c. path c = Some (normalize_path p2)) (cords' (app c2))"
      unfolding list_ex_iff by auto
    with v show ?thesis by (simp add: path_setter_cases)
  qed
  have b: "path_setter cords' c2 p2 = (None, c2\<lparr>path := Some (normalize_path p2)\<rparr>)"
    if "path_setter cords c1 p1 = (None, c1')" "normalize_path p2 = normalize_path p1"
      "\<forall>c \<in> set (cords' (app c2)). path c \<noteq> Some (normalize_path p2)"
  proof -
    from reg[OF that(1)] that(2) have v: "\<not> path_invalid (normalize_path p2)" by simp
    from that(3) have "\<not> list_ex (\<lambda>c. path c = Some (normalize_path p2)) (cords' (app c2))"
      unfolding list_ex_iff by auto
    with v show ?thesis by (simp add: path_setter_cases)
  qed
  have c: "fst (passthrough_path_setter c2 p2) = fst (path_setter (\<lambda>a. []) c2 p2)"
    by (simp add: path_setter_cases passthrough_path_setter_cases)
  have d: "path_setter cords' c2 p2 = (Some (DuplicatePath (normalize_path p2)), c2) \<Longrightarrow>
      passthrough_path_setter c2 p2 = (None, c2\<lparr>passthrough_path := Some (normalize_path p2)\<rparr>)"
    by (simp add: path_setter_cases passthrough_path_setter_cases split: if_splits)
  have e: "\<forall>d. fst (passthrough_path_setter c2 p2) \<noteq> Some (DuplicatePath d)"
    by (simp add: passthrough_path_setter_cases)
  from a b c d e show ?thesis by blast
qed

lemma app_cord_new: "app (cord_new a) = a"
  by (simp add: cord_new_def)

text \<open>Chute 1 has registered \<open>/foo\<close>; the candidate \<open>/foo/\<close> on chutes 1 and 2.\<close>

theorem duplicate_path_per_owner_witness:
  "(path_setter (\<lambda>a. []) (cord_new 1) ''foo'' = (None, (cord_new 1)\<lparr>path := Some ''/foo''\<rparr>) \<and>
    app (cord_new 1) = app (cord_new 1) \<and>
    (cord_new 1)\<lparr>path := Some ''/foo''\<rparr> \<in> set ([(cord_new 1)\<lparr>path := Some ''/foo''\<rparr>]) \<and>
    normalize_path ''/foo/'' = normalize_path ''foo'' \<and>
    path_setter (\<lambda>a. if a = 1 then [(cord_new 1)\<lparr>path := Some ''/foo''\<rparr>] else [])
       (cord_new 1) ''/foo/'' = (Some (DuplicatePath ''/foo''), cord_new 1)) \<and>
   (app (cord_new 2) \<noteq> app (cord_new 1) \<and>
    path_setter (\<lambda>a. if a = 1 then [(cord_new 1)\<lparr>path := Some ''/foo''\<rparr>] else [])
       (cord_new 2) ''/foo/'' = (None, (cord_new 2)\<lparr>path := Some ''/foo''\<rparr>)) \<and>
   passthrough_path_setter (cord_new 1) ''/foo/''
     = (None, (cord_new 1)\<lparr>passthrough_path := Some ''/foo''\<rparr>)"
proof -
  let ?c1 = "cord_new 1"
  let ?c1' = "(cord_new 1)\<lparr>path := Some ''/foo''\<rparr>"
  let ?cords' = "\<lambda>a::nat. if a = 1 then [?c1'] else []"
  have n1: "normalize_path ''foo'' = ''/foo''" by code_simp
  have n2: "normalize_path ''/foo/'' = ''/foo''" by code_simp
  have v: "\<not> path_invalid ''/foo''" by code_simp
  have app1: "app (cord_new 1) = 1" and app2: "app (cord_new 2) = 2"
    by (simp_all only: app_cord_new)
  have s1: "path_setter (\<lambda>a. []) ?c1 ''foo'' = (None, ?c1')"
    by (simp add: path_setter_cases n1 v)
  have m: "?c1' \<in> set (?cords' (app ?c1))" by (simp add: app_cord_new)
  have nn: "normalize_path ''/foo/'' = normalize_path ''foo''" by (simp only: n1 n2)
  note dup = duplicate_path_per_owner[of "\<lambda>a. []" ?c1 "''foo''" ?c1' _ ?cords' "''/foo/''"]
  have a: "path_setter ?cords' ?c1 ''/foo/'' = (Some (DuplicatePath (normalize_path ''/foo/'')), ?c1)"
    by (rule mp[OF dup[of ?c1, THEN conjunct1] conjI[OF s1 conjI[OF refl conjI[OF m nn]]]])
  have ne: "app (cord_new 2) \<noteq> app ?c1" by (simp add: app_cord_new)
  have free: "\<forall>c \<in> set (?cords' (app (cord_new 2))). path c \<noteq> Some (normalize_path ''/foo/'')"
    by (simp add: app_cord_new)
  have b: "path_setter ?cords' (cord_new 2) ''/foo/''
             = (None, (cord_new 2)\<lparr>path := Some (normalize_path ''/foo/'')\<rparr>)"
    by (rule mp[OF dup[of "cord_new 2", THEN conjunct2, THEN conjunct1]
                  conjI[OF s1 conjI[OF ne conjI[OF m conjI[OF nn free]]]]])
  have d: "passthrough_path_setter ?c1 ''/foo/''
             = (None, ?c1\<lparr>passthrough_path := Some (normalize_path ''/foo/'')\<rparr>)"
    by (rule mp[OF dup[of ?c1, THEN conjunct2, THEN conjunct2, THEN conjunct2, THEN conjunct1] a])
  from a b d have
    "path_setter ?cords' ?c1 ''/foo/'' = (Some (DuplicatePath ''/foo''), ?c1)"
    "path_setter ?cords' (cord_new 2) ''/foo/'' = (None, (cord_new 2)\<lparr>path := Some ''/foo''\<rparr>)"
    "passthrough_path_setter ?c1 ''/foo/'' = (None, ?c1\<lparr>passthrough_path := Some ''/foo''\<rparr>)"
    by (simp_all only: n2)
  with s1 m nn ne show ?thesis by (simp only: app1 if_True set_simps) blast
qed

lemma normalize_path_no_slash: "slash \<notin> set name \<Longrightarrow> normalize_path name = slash # name"
proof -
  assume a: "slash \<notin> set name"
  then have "lstrip slash name = name" by (cases name) (auto simp: lstrip_def)
  moreover from a have "rstrip slash name = name"
    by (cases name rule: rev_cases) (auto simp: rstrip_def)
  ultimately show ?thesis by (simp add: normalize_path_def)
qed

lemma path_grammar_single: "slash \<notin> set name \<Longrightarrow> path_grammar (slash # name) = segment_ok name"
  by (simp add: path_grammar_def split_on_no_sep)

lemma segment_ok_chars: "segment_ok name \<Longrightarrow> c \<in> set name \<Longrightarrow> is_segment_char c"
  by (auto simp: segment_ok_def is_segment_char_def list_all_iff split: list.splits)

lemma segment_ok_no_upper: "segment_ok name \<Longrightarrow> c \<in> set name \<Longrightarrow> \<not> is_upper c"
proof -
  assume "segment_ok name" "c \<in> set name"
  then have "is_segment_char c" by (rule segment_ok_chars)
  then show "\<not> is_upper c"
    by (auto simp: is_segment_char_def is_lower_or_digit_def is_upper_def)
qed

lemma segment_ok_no_leading_underscore: "segment_ok name \<Longrightarrow> \<not> startswith name ''_''"
  by (cases name) (auto simp: segment_ok_def is_lower_or_digit_def)

lemma normalize_path_last_newline:
  "newline \<notin> set name \<Longrightarrow> last (normalize_path name) \<noteq> newline"
proof -
  assume a: "newline \<notin> set name"
  have "last (normalize_path name) \<in> set (normalize_path name)"
    using normalize_path_not_Nil last_in_set by blast
  with set_normalize_path[of name] have "last (normalize_path name) \<in> insert slash (set name)"
    by blast
  with a show ?thesis by (auto simp: newline_def slash_def)
qed

lemma cord_call_invalid:
  assumes "unset (path self) \<or> unset (passthrough_path self)"
    and "path_invalid (normalize_path (fname f))"
  shows "cord_call cords is_local self f
           = (Inl (InvalidPath (normalize_path (fname f))), self\<lparr>func := Some f\<rparr>)"
  using assms
  by (cases "unset (path self)")
     (simp_all add: cord_call_def Let_def path_setter_cases passthrough_path_setter_cases)

lemma cord_call_success:
  assumes "cord_call cords is_local self f = (Inr b, self')"
  shows "(unset (path self) \<longrightarrow> path self' = Some (normalize_path (fname f))) \<and>
         (unset (passthrough_path self) \<longrightarrow>
            passthrough_path self' = Some (normalize_path (fname f)))"
  using assms
  by (auto simp: cord_call_def path_setter_cases passthrough_path_setter_cases Let_def
           split: if_splits)

section \<open>Binding a cord to a function\<close>

text \<open>
  C10. Let the cord lack a primary path or a passthrough path when it is bound, and let
  the function's name contain no newline (a Python identifier never does). If the
  normalised name violates the path grammar, binding raises InvalidPath with the
  normalised name; in particular so for a name without slashes that begins with an
  underscore or contains an uppercase letter. When binding succeeds, a path that was
  missing is the normalised name of the function.
\<close>

theorem cord_call_function_name:
  assumes "unset (path self) \<or> unset (passthrough_path self)"
    and "newline \<notin> set (fname f)"
  shows "(\<not> path_grammar (normalize_path (fname f))
          \<longrightarrow> cord_call cords is_local self f
                = (Inl (InvalidPath (normalize_path (fname f))), self\<lparr>func := Some f\<rparr>)) \<and>
         (slash \<notin> set (fname f) \<and>
            (startswith (fname f) ''_'' \<or> (\<exists>c \<in> set (fname f). is_upper c))
          \<longrightarrow> cord_call cords is_local self f
                = (Inl (InvalidPath (slash # fname f)), self\<lparr>func := Some f\<rparr>)) \<and>
         (\<forall>b self'. cord_call cords is_local self f = (Inr b, self')
          \<longrightarrow> (unset (path self) \<longrightarrow> path self' = Some (normalize_path (fname f))) \<and>
              (unset (passthrough_path self)
                 \<longrightarrow> passthrough_path self' = Some (normalize_path (fname f))))"
proof -
  have inv: "path_invalid (normalize_path (fname f))"
    if "\<not> path_grammar (normalize_path (fname f))"
    using that normalize_path_last_newline[OF assms(2)] by (simp add: path_invalid_iff)
  have one: "cord_call cords is_local self f
       = (Inl (InvalidPath (normalize_path (fname f))), self\<lparr>func := Some f\<rparr>)"
    if "\<not> path_grammar (normalize_path (fname f))"
    using cord_call_invalid[OF assms(1) inv[OF that]] .
  have two: "cord_call cords is_local self f
       = (Inl (InvalidPath (slash # fname f)), self\<lparr>func := Some f\<rparr>)"
    if ns: "slash \<notin> set (fname f)"
      and bad: "startswith (fname f) ''_'' \<or> (\<exists>c \<in> set (fname f). is_upper c)"
  proof -
    from bad have "\<not> segment_ok (fname f)"
      using segment_ok_no_leading_underscore segment_ok_no_upper by blast
    with ns have "\<not> path_grammar (normalize_path (fname f))"
      by (simp add: normalize_path_no_slash path_grammar_single)
    from one[OF this] ns show ?thesis by (simp add: normalize_path_no_slash)
  qed
  from one two cord_call_success show ?thesis by blast
qed

lemma fname_example_func: "fname (example_func name) = name"
  by (simp add: example_func_def)

text \<open>A function named \<open>_private\<close>, bound to a cord made with the defaults.\<close>

theorem cord_call_function_name_witness:
  "(unset (path (cord_new 0)) \<or> unset (passthrough_path (cord_new 0))) \<and>
   newline \<notin> set (fname (example_func ''_private'')) \<and>
   \<not> path_grammar (normalize_path (fname (example_func ''_private''))) \<and>
   slash \<notin> set (fname (example_func ''_private'')) \<and>
   startswith (fname (example_func ''_private'')) ''_'' \<and>
   cord_call (\<lambda>a. []) True (cord_new 0) (example_func ''_private'')
     = (Inl (InvalidPath ''/_private''), (cord_new 0)\<lparr>func := Some (example_func ''_private'')\<rparr>)"
proof -
  have u: "unset (path (cord_new 0)) \<or> unset (passthrough_path (cord_new 0))"
    by (simp add: cord_new_def unset_def)
  have nl: "newline \<notin> set (fname (example_func ''_private''))"
    unfolding fname_example_func by code_simp
  have g: "\<not> path_grammar (normalize_path (fname (example_func ''_private'')))"
    unfolding fname_example_func by code_simp
  have ns: "slash \<notin> set (fname (example_func ''_private''))"
    unfolding fname_example_func by code_simp
  have us: "startswith (fname (example_func ''_private'')) ''_''"
    unfolding fname_example_func by code_simp
  have n: "normalize_path (fname (example_func ''_private'')) = ''/_private''"
    unfolding fname_example_func by code_simp
  have "cord_call (\<lambda>a. []) True (cord_new 0) (example_func ''_private'')
     = (Inl (InvalidPath (normalize_path (fname (example_func ''_private'')))),
        (cord_new 0)\<lparr>func := Some (example_func ''_private'')\<rparr>)"
    by (rule mp[OF cord_call_function_name[OF u nl, THEN conjunct1] g])
  then have r: "cord_call (\<lambda>a. []) True (cord_new 0) (example_func ''_private'')
     = (Inl (InvalidPath ''/_private''), (cord_new 0)\<lparr>func := Some (example_func ''_private'')\<rparr>)"
    by (simp only: n)
  show ?thesis by (intro conjI u nl g ns us r)
qed

section \<open>The local call\<close>

lemma on_exception_asynccontextmanager:
  "on_exception max_time (asynccontextmanager body) w = (Inr (ContextManager body), w)"
  by (simp add: on_exception_def asynccontextmanager_def)

lemma local_call_base_once:
  "func self = Some f \<Longrightarrow>
     local_call_base cl self args kwargs w = call_body cl self f args kwargs w"
  by (simp add: local_call_base_def on_exception_asynccontextmanager)

text \<open>Whatever the remote end answers, one request is sent at most and no time is slept.\<close>

lemma local_call_base_single_attempt:
  "func self = Some f \<Longrightarrow>
     posts (snd (local_call_base cl self args kwargs w)) \<le> Suc (posts w) \<and>
     slept (snd (local_call_base cl self args kwargs w)) = slept w"
  by (simp add: local_call_base_def on_exception_asynccontextmanager call_body_def
           split: sum.splits)

lemma call_body_posts:
  "posts (snd (call_body cl self f args kwargs w)) \<le> Suc (posts w) \<and>
   slept (snd (call_body cl self f args kwargs w)) = slept w"
  by (simp add: call_body_def split: sum.splits)

lemma call_body_response:
  assumes "build_request cl self f args kwargs = Inr req"
    and "session_post cl (posts w) req = Inr response"
  shows "call_body cl self f args kwargs w =
     (if status response = 503
      then (Inl (StillProvisioning (body_text response)), w\<lparr>posts := Suc (posts w)\<rparr>)
      else if status response \<noteq> 200
      then (Inl (PyException (PStr (body_text response))), w\<lparr>posts := Suc (posts w)\<rparr>)
      else (Inr response, w\<lparr>posts := Suc (posts w)\<rparr>))"
  using assms by (simp add: call_body_def)

lemma example_build_request:
  "\<exists>req. build_request (example_client r) self f args kwargs = Inr req"
  by (simp add: build_request_def request_payload_def example_client_def)

lemma example_session_post: "session_post (example_client r) n req = Inr (r n)"
  by (simp add: example_client_def)

lemma example_call_body:
  "call_body (example_client r) self f args kwargs w =
     (if status (r (posts w)) = 503
      then (Inl (StillProvisioning (body_text (r (posts w)))), w\<lparr>posts := Suc (posts w)\<rparr>)
      else if status (r (posts w)) \<noteq> 200
      then (Inl (PyException (PStr (body_text (r (posts w))))), w\<lparr>posts := Suc (posts w)\<rparr>)
      else (Inr (r (posts w)), w\<lparr>posts := Suc (posts w)\<rparr>))"
proof -
  obtain req where "build_request (example_client r) self f args kwargs = Inr req"
    using example_build_request by blast
  from call_body_response[OF this example_session_post] show ?thesis .
qed

text \<open>
  C3, at a remote end that answers the first request with status 503 and would answer
  the second one with status 200: with a provision timeout of 180 seconds, the local
  call sends one request, does not sleep, and raises StillProvisioning.
\<close>

theorem local_call_base_no_retry:
  "provision_timeout (bound_cord 0 ''foo'') = 180 \<and>
   local_call_base (example_client provisioning_remote) (bound_cord 0 ''foo'')
       [PInt 41] [] \<lparr>posts = 0, slept = 0\<rparr>
     = (Inl (StillProvisioning ''still provisioning''), \<lparr>posts = 1, slept = 0\<rparr>)"
proof -
  have f: "func (bound_cord 0 ''foo'') = Some (example_func ''foo'')"
    by (simp add: bound_cord_def)
  have t: "provision_timeout (bound_cord 0 ''foo'') = 180"
    by (simp add: bound_cord_def cord_new_def)
  have "call_body (example_client provisioning_remote) (bound_cord 0 ''foo'')
          (example_func ''foo'') [PInt 41] [] \<lparr>posts = 0, slept = 0\<rparr>
        = (Inl (StillProvisioning ''still provisioning''), \<lparr>posts = 1, slept = 0\<rparr>)"
    by (simp add: example_call_body provisioning_remote_def plain_response_def)
  with local_call_base_once[OF f] t show ?thesis by simp
qed

text \<open>
  The retry loop itself, applied to the body instead of to the function that builds the
  context manager, does wait and send the second request.
\<close>

lemma retry_exception_retries:
  "retry_exception
      (call_body (example_client provisioning_remote) (bound_cord 0 ''foo'')
         (example_func ''foo'') [PInt 41] [])
      180 0 \<lparr>posts = 0, slept = 0\<rparr>
     = (Inr (plain_response 200 [] []), \<lparr>posts = 2, slept = 1\<rparr>)"
proof -
  let ?body = "call_body (example_client provisioning_remote) (bound_cord 0 ''foo'')
         (example_func ''foo'') [PInt 41] []"
  have one: "?body \<lparr>posts = 0, slept = 0\<rparr>
        = (Inl (StillProvisioning ''still provisioning''), \<lparr>posts = 1, slept = 0\<rparr>)"
    by (simp add: example_call_body provisioning_remote_def plain_response_def)
  have two: "?body \<lparr>posts = 1, slept = 1\<rparr>
        = (Inr (plain_response 200 [] []), \<lparr>posts = 2, slept = 1\<rparr>)"
    by (simp add: example_call_body provisioning_remote_def plain_response_def)
  have "retry_exception ?body 180 0 \<lparr>posts = 0, slept = 0\<rparr>
          = retry_exception ?body 180 1 \<lparr>posts = 1, slept = 1\<rparr>"
    using one by (subst retry_exception.simps) (simp add: is_still_provisioning_def sleep_def)
  also have "\<dots> = (Inr (plain_response 200 [] []), \<lparr>posts = 2, slept = 1\<rparr>)"
    using two by (subst retry_exception.simps) simp
  finally show ?thesis .
qed

lemma startswith_set: "startswith s sub \<Longrightarrow> set sub \<subseteq> set s"
  by (induction s sub rule: startswith.induct) auto

lemma contains_set: "contains s sub \<Longrightarrow> set sub \<subseteq> set s"
proof (induction s)
  case Nil
  then show ?case by simp
next
  case (Cons a s)
  from Cons.prems have "startswith (a # s) sub \<or> contains s sub" by simp
  then show ?case
  proof
    assume "startswith (a # s) sub"
    then show ?thesis by (rule startswith_set)
  next
    assume "contains s sub"
    with Cons.IH show ?thesis by auto
  qed
qed

lemma strip_Nil_iff: "strip s = [] \<longleftrightarrow> (\<forall>c \<in> set s. is_space c)"
proof -
  have "strip s = [] \<longleftrightarrow> (\<forall>c \<in> set (dropWhile is_space s). is_space c)"
    by (simp add: strip_def dropWhile_eq_Nil_conv)
  also have "\<dots> \<longleftrightarrow> (\<forall>c \<in> set s. is_space c)"
  proof
    assume a: "\<forall>c \<in> set (dropWhile is_space s). is_space c"
    have "set s = set (takeWhile is_space s) \<union> set (dropWhile is_space s)"
      by (metis set_append takeWhile_dropWhile_id)
    with a show "\<forall>c \<in> set s. is_space c" by (auto dest: set_takeWhileD)
  next
    assume "\<forall>c \<in> set s. is_space c"
    then show "\<forall>c \<in> set (dropWhile is_space s). is_space c"
      by (auto dest: set_dropWhileD)
  qed
  finally show ?thesis .
qed

lemma data_frame_not_blank:
  assumes "contains s ''data: {''"
  shows "s \<noteq> [] \<and> strip s \<noteq> []"
proof -
  from contains_set[OF assms] have d: "CHR ''d'' \<in> set s" by auto
  have "\<not> is_space (CHR ''d'')" by (simp add: is_space_def)
  with d show ?thesis by (auto simp: strip_Nil_iff)
qed

lemma frame_handle_chunk:
  "frame cl chunk data \<Longrightarrow> handle_chunk cl self chunk = handle_data cl self data"
  by (auto simp: frame_def handle_chunk_def data_frame_not_blank split: sum.splits)

lemma dict_get_single: "dict_get [(k, v)] k' = (if k' = k then v else PNone)"
  by (simp add: dict_get_def)

lemma handle_result:
  "carries cl chunk (ResultEvent v) \<Longrightarrow>
     handle_chunk cl self chunk =
       (if truthy v then
          (if passthrough self then
             (case func self of
                None \<Rightarrow> \<lparr>yielded = [], logged = [], invoked = [],
                          raised = Some (AttributeError ''_func'')\<rparr>
              | Some f \<Rightarrow>
                  (case fcall f [v] [] of
                     Inl e \<Rightarrow> \<lparr>yielded = [], logged = [], invoked = [v], raised = Some e\<rparr>
                   | Inr r \<Rightarrow> \<lparr>yielded = [r], logged = [], invoked = [v], raised = None\<rparr>))
           else \<lparr>yielded = [v], logged = [], invoked = [], raised = None\<rparr>)
        else \<lparr>yielded = [], logged = [], invoked = [], raised = None\<rparr>)"
  by (simp add: frame_handle_chunk handle_data_def dict_get_single
           split: option.splits sum.splits)

lemma handle_error:
  "carries cl chunk (ErrorEvent e) \<Longrightarrow>
     handle_chunk cl self chunk =
       (if truthy e
        then \<lparr>yielded = [], logged = [(Error, e)], invoked = [], raised = Some (PyException e)\<rparr>
        else \<lparr>yielded = [], logged = [], invoked = [], raised = None\<rparr>)"
  by (simp add: frame_handle_chunk handle_data_def dict_get_single)

lemma trace_message_truthy: "trace_message cl tr = Inr m \<Longrightarrow> truthy tr"
  by (cases tr) (auto simp: trace_message_def split: option.splits)

lemma trace_ok_message: "trace_ok t \<Longrightarrow> \<exists>m. trace_message cl (PDict t) = Inr m"
  by (auto simp: trace_ok_def trace_message_def split: option.splits pyval.splits)

lemma handle_trace:
  "carries cl chunk (TraceEvent t) \<Longrightarrow> trace_message cl (PDict t) = Inr m \<Longrightarrow>
     handle_chunk cl self chunk =
       \<lparr>yielded = [], logged = [(Debug, PStr m)], invoked = [], raised = None\<rparr>"
  using trace_message_truthy[of cl "PDict t" m]
  by (simp add: frame_handle_chunk handle_data_def dict_get_single)

lemma stream_events_Cons_quiet:
  "raised (handle_chunk cl self c) = None \<Longrightarrow>
     stream_events cl self (c # rest) =
       \<lparr>yielded = yielded (handle_chunk cl self c) @ yielded (stream_events cl self rest),
        logged = logged (handle_chunk cl self c) @ logged (stream_events cl self rest),
        invoked = invoked (handle_chunk cl self c) @ invoked (stream_events cl self rest),
        raised = raised (stream_events cl self rest)\<rparr>"
  by (simp add: Let_def)

lemma stream_events_Cons_raise:
  "raised (handle_chunk cl self c) = Some e \<Longrightarrow>
     stream_events cl self (c # rest) = handle_chunk cl self c"
  by (simp add: Let_def)

lemma stream_events_append:
  "raised (stream_events cl self cs) = None \<Longrightarrow>
     stream_events cl self (cs @ cs') =
       \<lparr>yielded = yielded (stream_events cl self cs) @ yielded (stream_events cl self cs'),
        logged = logged (stream_events cl self cs) @ logged (stream_events cl self cs'),
        invoked = invoked (stream_events cl self cs) @ invoked (stream_events cl self cs'),
        raised = raised (stream_events cl self cs')\<rparr>"
proof (induction cs)
  case Nil
  then show ?case by simp
next
  case (Cons c cs)
  show ?case
  proof (cases "raised (handle_chunk cl self c)")
    case None
    with Cons.prems have "raised (stream_events cl self cs) = None"
      by (simp add: Let_def)
    from Cons.IH[OF this] None show ?thesis by (simp add: Let_def)
  next
    case (Some e)
    with Cons.prems show ?thesis by (simp add: Let_def)
  qed
qed

lemma quiet_stream:
  assumes "list_all2 (carries cl) cs evs"
    and "\<forall>ev \<in> set evs. quiet ev"
    and "\<not> passthrough self"
  shows "stream_events cl self cs =
           \<lparr>yielded = truthy_results evs, logged = trace_log cl evs, invoked = [],
            raised = None\<rparr>"
  using assms(1,2)
proof (induction cs evs rule: list_all2_induct)
  case Nil
  then show ?case by simp
next
  case (Cons c cs ev evs)
  then have ih: "stream_events cl self cs =
      \<lparr>yielded = truthy_results evs, logged = trace_log cl evs, invoked = [], raised = None\<rparr>"
    by simp
  show ?case
  proof (cases ev)
    case (TraceEvent t)
    with Cons.prems have "trace_ok t" by simp
    then obtain m where m: "trace_message cl (PDict t) = Inr m"
      using trace_ok_message by blast
    from Cons.hyps(1) TraceEvent have "carries cl c (TraceEvent t)" by simp
    from handle_trace[OF this m] ih m TraceEvent show ?thesis by (simp add: Let_def)
  next
    case (ErrorEvent e)
    with Cons.prems have "\<not> truthy e" by simp
    moreover from Cons.hyps(1) ErrorEvent have "carries cl c (ErrorEvent e)" by simp
    ultimately show ?thesis using ih ErrorEvent by (simp add: handle_error Let_def)
  next
    case (ResultEvent v)
    from Cons.hyps(1) ResultEvent have "carries cl c (ResultEvent v)" by simp
    from handle_result[OF this] ih ResultEvent assms(3) show ?thesis by (simp add: Let_def)
  qed
qed

lemma quiet_then_error:
  assumes "list_all2 (carries cl) cs evs"
    and "\<forall>ev \<in> set evs. quiet ev"
    and "\<not> passthrough self"
    and "carries cl c (ErrorEvent e)"
    and "truthy e"
  shows "stream_events cl self (cs @ c # rest) =
           \<lparr>yielded = truthy_results evs, logged = trace_log cl evs @ [(Error, e)],
            invoked = [], raised = Some (PyException e)\<rparr>"
proof -
  have q: "stream_events cl self cs =
      \<lparr>yielded = truthy_results evs, logged = trace_log cl evs, invoked = [], raised = None\<rparr>"
    by (rule quiet_stream[OF assms(1,2,3)])
  have r: "stream_events cl self (c # rest) =
      \<lparr>yielded = [], logged = [(Error, e)], invoked = [], raised = Some (PyException e)\<rparr>"
    using handle_error[OF assms(4)] assms(5) by (simp add: Let_def)
  from q have "raised (stream_events cl self cs) = None" by simp
  from stream_events_append[OF this, of "c # rest"] q r show ?thesis by simp
qed

lemma foldl_last: "foldl (\<lambda>result item. item) d xs = (if xs = [] then d else last xs)"
  by (induction xs arbitrary: d) auto

lemma example_carries:
  "carries (example_client r) frame_trace1 (TraceEvent trace1)"
  "carries (example_client r) frame_trace2 (TraceEvent trace2)"
  "carries (example_client r) frame_A (ResultEvent (PStr ''A''))"
  "carries (example_client r) frame_B (ResultEvent (PStr ''B''))"
  "carries (example_client r) frame_E (ErrorEvent (PStr ''E''))"
  "carries (example_client r) frame_zero (ResultEvent (PInt 0))"
  "carries (example_client r) frame_five (ResultEvent (PInt 5))"
  by code_simp+

lemma example_trace_message:
  "trace_message (example_client r) (PDict trace1) = Inr ''12:00:01 [host=a]: loading''"
  "trace_message (example_client r) (PDict trace2) = Inr ''12:00:02 [host=a]: running''"
  by code_simp+

lemma example_local_call_base:
  "local_call_base (example_client (streaming_remote chunks)) (bound_cord a name) args kwargs
       \<lparr>posts = 0, slept = 0\<rparr>
     = (Inr (plain_response 200 [] chunks), \<lparr>posts = 1, slept = 0\<rparr>)"
proof -
  have "func (bound_cord a name) = Some (example_func name)" by (simp add: bound_cord_def)
  from local_call_base_once[OF this] show ?thesis
    by (simp add: example_call_body streaming_remote_def plain_response_def)
qed

lemma bound_cord_passthrough: "\<not> passthrough (bound_cord a name)"
  by (simp add: bound_cord_def cord_new_def)

lemma content_plain_response: "content (plain_response code body chunks) = chunks"
  by (simp add: plain_response_def)

section \<open>The order of delivery\<close>

text \<open>
  C4, as amended. Let the response hold five lines that carry, in this order, a trace, a
  result \<open>a\<close>, a trace, a result \<open>b\<close> and an error \<open>e\<close>, where \<open>a\<close>, \<open>b\<close> and
  \<open>e\<close> are truthy, both traces have a string timestamp and a message, and the cord is
  not a passthrough. Then the streaming local call yields \<open>a\<close>, then \<open>b\<close>, and then
  raises an exception that carries \<open>e\<close>; the two trace lines are logged and not
  yielded, and the wrapped function is not invoked.
\<close>

theorem stream_delivery_order:
  assumes "local_call_base cl self args kwargs w = (Inr response, w')"
    and "content response = [c1, c2, c3, c4, c5]"
    and "carries cl c1 (TraceEvent t1)"
    and "carries cl c2 (ResultEvent a)"
    and "carries cl c3 (TraceEvent t2)"
    and "carries cl c4 (ResultEvent b)"
    and "carries cl c5 (ErrorEvent e)"
    and "trace_message cl (PDict t1) = Inr m1"
    and "trace_message cl (PDict t2) = Inr m2"
    and "truthy a" and "truthy b" and "truthy e"
    and "\<not> passthrough self"
  shows "local_stream_call cl self args kwargs w =
           (\<lparr>yielded = [a, b],
             logged = [(Debug, PStr m1), (Debug, PStr m2), (Error, e)],
             invoked = [],
             raised = Some (PyException e)\<rparr>, w')"
proof -
  have h1: "handle_chunk cl self c1 =
      \<lparr>yielded = [], logged = [(Debug, PStr m1)], invoked = [], raised = None\<rparr>"
    by (rule handle_trace[OF assms(3) assms(8)])
  have h2: "handle_chunk cl self c2 =
      \<lparr>yielded = [a], logged = [], invoked = [], raised = None\<rparr>"
    using handle_result[OF assms(4), of self] assms(10) assms(13) by simp
  have h3: "handle_chunk cl self c3 =
      \<lparr>yielded = [], logged = [(Debug, PStr m2)], invoked = [], raised = None\<rparr>"
    by (rule handle_trace[OF assms(5) assms(9)])
  have h4: "handle_chunk cl self c4 =
      \<lparr>yielded = [b], logged = [], invoked = [], raised = None\<rparr>"
    using handle_result[OF assms(6), of self] assms(11) assms(13) by simp
  have h5: "handle_chunk cl self c5 =
      \<lparr>yielded = [], logged = [(Error, e)], invoked = [], raised = Some (PyException e)\<rparr>"
    using handle_error[OF assms(7), of self] assms(12) by simp
  have "stream_events cl self [c1, c2, c3, c4, c5] =
      \<lparr>yielded = [a, b], logged = [(Debug, PStr m1), (Debug, PStr m2), (Error, e)],
       invoked = [], raised = Some (PyException e)\<rparr>"
    by (simp add: h1 h2 h3 h4 h5 Let_def)
  with assms(1,2) show ?thesis by (simp add: local_stream_call_def)
qed

text \<open>The five lines with the results \<open>"A"\<close> and \<open>"B"\<close> and the error \<open>"E"\<close>.\<close>

theorem stream_delivery_order_witness:
  "local_stream_call
      (example_client (streaming_remote [frame_trace1, frame_A, frame_trace2, frame_B, frame_E]))
      (bound_cord 0 ''foo'') [] [] \<lparr>posts = 0, slept = 0\<rparr>
   = (\<lparr>yielded = [PStr ''A'', PStr ''B''],
       logged = [(Debug, PStr ''12:00:01 [host=a]: loading''),
                 (Debug, PStr ''12:00:02 [host=a]: running''), (Error, PStr ''E'')],
       invoked = [],
       raised = Some (PyException (PStr ''E''))\<rparr>, \<lparr>posts = 1, slept = 0\<rparr>)"
  by (rule stream_delivery_order[OF example_local_call_base content_plain_response
        example_carries(1) example_carries(3) example_carries(2) example_carries(4)
        example_carries(5) example_trace_message(1) example_trace_message(2)
        _ _ _ bound_cord_passthrough]) simp_all

text \<open>
  C4 as it is written fails for a falsy result: with the result 0 in the place of
  \<open>a\<close>, only \<open>"B"\<close> is yielded.
\<close>

theorem stream_delivery_order_counterexample:
  "carries (example_client (streaming_remote [frame_trace1, frame_zero, frame_trace2, frame_B, frame_E]))
     frame_zero (ResultEvent (PInt 0)) \<and>
   local_stream_call
      (example_client (streaming_remote [frame_trace1, frame_zero, frame_trace2, frame_B, frame_E]))
      (bound_cord 0 ''foo'') [] [] \<lparr>posts = 0, slept = 0\<rparr>
   = (\<lparr>yielded = [PStr ''B''],
       logged = [(Debug, PStr ''12:00:01 [host=a]: loading''),
                 (Debug, PStr ''12:00:02 [host=a]: running''), (Error, PStr ''E'')],
       invoked = [],
       raised = Some (PyException (PStr ''E''))\<rparr>, \<lparr>posts = 1, slept = 0\<rparr>)"
proof -
  let ?cl = "example_client (streaming_remote [frame_trace1, frame_zero, frame_trace2, frame_B, frame_E])"
  let ?self = "bound_cord 0 ''foo''"
  have h1: "handle_chunk ?cl ?self frame_trace1 =
      \<lparr>yielded = [], logged = [(Debug, PStr ''12:00:01 [host=a]: loading'')], invoked = [],
       raised = None\<rparr>"
    by (rule handle_trace[OF example_carries(1) example_trace_message(1)])
  have h2: "handle_chunk ?cl ?self frame_zero =
      \<lparr>yielded = [], logged = [], invoked = [], raised = None\<rparr>"
    using handle_result[OF example_carries(6), of _ ?self] by simp
  have h3: "handle_chunk ?cl ?self frame_trace2 =
      \<lparr>yielded = [], logged = [(Debug, PStr ''12:00:02 [host=a]: running'')], invoked = [],
       raised = None\<rparr>"
    by (rule handle_trace[OF example_carries(2) example_trace_message(2)])
  have h4: "handle_chunk ?cl ?self frame_B =
      \<lparr>yielded = [PStr ''B''], logged = [], invoked = [], raised = None\<rparr>"
    using handle_result[OF example_carries(4), of _ ?self] bound_cord_passthrough by simp
  have h5: "handle_chunk ?cl ?self frame_E =
      \<lparr>yielded = [], logged = [(Error, PStr ''E'')], invoked = [],
       raised = Some (PyException (PStr ''E''))\<rparr>"
    using handle_error[OF example_carries(5), of _ ?self] by simp
  have "stream_events ?cl ?self [frame_trace1, frame_zero, frame_trace2, frame_B, frame_E] =
      \<lparr>yielded = [PStr ''B''],
       logged = [(Debug, PStr ''12:00:01 [host=a]: loading''),
                 (Debug, PStr ''12:00:02 [host=a]: running''), (Error, PStr ''E'')],
       invoked = [], raised = Some (PyException (PStr ''E''))\<rparr>"
    by (simp add: h1 h2 h3 h4 h5 Let_def)
  then have "local_stream_call ?cl ?self [] [] \<lparr>posts = 0, slept = 0\<rparr>
   = (\<lparr>yielded = [PStr ''B''],
       logged = [(Debug, PStr ''12:00:01 [host=a]: loading''),
                 (Debug, PStr ''12:00:02 [host=a]: running''), (Error, PStr ''E'')],
       invoked = [],
       raised = Some (PyException (PStr ''E''))\<rparr>, \<lparr>posts = 1, slept = 0\<rparr>)"
    by (simp add: local_stream_call_def example_local_call_base content_plain_response)
  with example_carries(6) show ?thesis by (rule conjI)
qed

section \<open>The unary local call\<close>

text \<open>
  C5, as amended. Let the request be answered with status 200 and the cord not be a
  passthrough. If the lines of the response carry events none of which ends the stream
  (traces with a string timestamp and a message, results, errors without a truthy
  message), the call returns the last truthy result value, or None when there is none,
  and the traces are logged. If such lines are followed by a line that carries an error
  with a truthy message, the call raises an exception that carries this message.
\<close>

theorem local_call_last_result:
  assumes "local_call_base cl self args kwargs w = (Inr response, w')"
    and "\<not> passthrough self"
  shows "(list_all2 (carries cl) (content response) evs \<and> (\<forall>ev \<in> set evs. quiet ev)
          \<longrightarrow> local_call cl self args kwargs w =
                (Inr (if truthy_results evs = [] then PNone else last (truthy_results evs)),
                 w', trace_log cl evs)) \<and>
         (content response = cs @ c # rest \<and> list_all2 (carries cl) cs evs \<and>
            (\<forall>ev \<in> set evs. quiet ev) \<and> carries cl c (ErrorEvent e) \<and> truthy e
          \<longrightarrow> local_call cl self args kwargs w =
                (Inl (PyException e), w', trace_log cl evs @ [(Error, e)]))"
proof -
  have a: "local_call cl self args kwargs w =
      (Inr (if truthy_results evs = [] then PNone else last (truthy_results evs)),
       w', trace_log cl evs)"
    if "list_all2 (carries cl) (content response) evs" "\<forall>ev \<in> set evs. quiet ev"
    using quiet_stream[OF that assms(2)] assms(1)
    by (simp add: local_call_def local_stream_call_def foldl_last)
  have b: "local_call cl self args kwargs w =
      (Inl (PyException e), w', trace_log cl evs @ [(Error, e)])"
    if "content response = cs @ c # rest" "list_all2 (carries cl) cs evs"
      "\<forall>ev \<in> set evs. quiet ev" "carries cl c (ErrorEvent e)" "truthy e"
    using quiet_then_error[OF that(2,3) assms(2) that(4,5), of rest] assms(1) that(1)
    by (simp add: local_call_def local_stream_call_def)
  from a b show ?thesis by blast
qed

text \<open>A trace and two results; a result, an error and a further result.\<close>

theorem local_call_last_result_witness:
  "local_call (example_client (streaming_remote [frame_trace1, frame_A, frame_B]))
      (bound_cord 0 ''foo'') [] [] \<lparr>posts = 0, slept = 0\<rparr>
     = (Inr (PStr ''B''), \<lparr>posts = 1, slept = 0\<rparr>,
        [(Debug, PStr ''12:00:01 [host=a]: loading'')]) \<and>
   local_call (example_client (streaming_remote [frame_A, frame_E, frame_B]))
      (bound_cord 0 ''foo'') [] [] \<lparr>posts = 0, slept = 0\<rparr>
     = (Inl (PyException (PStr ''E'')), \<lparr>posts = 1, slept = 0\<rparr>, [(Error, PStr ''E'')])"
proof -
  let ?w = "\<lparr>posts = 0, slept = 0\<rparr>"
  let ?self = "bound_cord 0 ''foo''"
  let ?cl1 = "example_client (streaming_remote [frame_trace1, frame_A, frame_B])"
  let ?evs1 = "[TraceEvent trace1, ResultEvent (PStr ''A''), ResultEvent (PStr ''B'')]"
  have c1: "list_all2 (carries ?cl1) (content (plain_response 200 [] [frame_trace1, frame_A, frame_B])) ?evs1"
    unfolding content_plain_response
    by (intro list_all2_Cons[THEN iffD2] conjI example_carries) simp
  have t1: "trace_ok trace1" by code_simp
  have q1: "\<forall>ev \<in> set ?evs1. quiet ev" using t1 by simp
  have r1: "local_call ?cl1 ?self [] [] ?w =
      (Inr (if truthy_results ?evs1 = [] then PNone else last (truthy_results ?evs1)),
       \<lparr>posts = 1, slept = 0\<rparr>, trace_log ?cl1 ?evs1)"
    by (rule mp[OF local_call_last_result[OF example_local_call_base bound_cord_passthrough,
                     THEN conjunct1] conjI[OF c1 q1]])
  have v1: "local_call ?cl1 ?self [] [] ?w =
      (Inr (PStr ''B''), \<lparr>posts = 1, slept = 0\<rparr>, [(Debug, PStr ''12:00:01 [host=a]: loading'')])"
    using r1 by (simp add: example_trace_message)
  let ?cl2 = "example_client (streaming_remote [frame_A, frame_E, frame_B])"
  let ?evs2 = "[ResultEvent (PStr ''A'')]"
  have s2: "content (plain_response 200 [] [frame_A, frame_E, frame_B]) = [frame_A] @ frame_E # [frame_B]"
    by (simp add: content_plain_response)
  have c2: "list_all2 (carries ?cl2) [frame_A] ?evs2"
    by (intro list_all2_Cons[THEN iffD2] conjI example_carries) simp
  have q2: "\<forall>ev \<in> set ?evs2. quiet ev" by simp
  have e2: "truthy (PStr ''E'')" by simp
  have r2: "local_call ?cl2 ?self [] [] ?w =
      (Inl (PyException (PStr ''E'')), \<lparr>posts = 1, slept = 0\<rparr>,
       trace_log ?cl2 ?evs2 @ [(Error, PStr ''E'')])"
    by (rule mp[OF local_call_last_result[OF example_local_call_base bound_cord_passthrough,
                     THEN conjunct2]
                   conjI[OF s2 conjI[OF c2 conjI[OF q2 conjI[OF example_carries(5) e2]]]]])
  have v2: "local_call ?cl2 ?self [] [] ?w =
      (Inl (PyException (PStr ''E'')), \<lparr>posts = 1, slept = 0\<rparr>, [(Error, PStr ''E'')])"
    using r2 by simp
  from v1 v2 show ?thesis by (rule conjI)
qed

text \<open>
  C5 as it is written fails when the last result is falsy: of the results 5 and 0, in
  this order, the call returns 5.
\<close>

theorem local_call_last_result_counterexample:
  "carries (example_client (streaming_remote [frame_five, frame_zero])) frame_five
     (ResultEvent (PInt 5)) \<and>
   carries (example_client (streaming_remote [frame_five, frame_zero])) frame_zero
     (ResultEvent (PInt 0)) \<and>
   local_call (example_client (streaming_remote [frame_five, frame_zero]))
      (bound_cord 0 ''foo'') [] [] \<lparr>posts = 0, slept = 0\<rparr>
     = (Inr (PInt 5), \<lparr>posts = 1, slept = 0\<rparr>, [])"
proof -
  let ?cl = "example_client (streaming_remote [frame_five, frame_zero])"
  let ?self = "bound_cord 0 ''foo''"
  have h1: "handle_chunk ?cl ?self frame_five =
      \<lparr>yielded = [PInt 5], logged = [], invoked = [], raised = None\<rparr>"
    using handle_result[OF example_carries(7), of _ ?self] bound_cord_passthrough by simp
  have h2: "handle_chunk ?cl ?self frame_zero =
      \<lparr>yielded = [], logged = [], invoked = [], raised = None\<rparr>"
    using handle_result[OF example_carries(6), of _ ?self] by simp
  have "stream_events ?cl ?self [frame_five, frame_zero] =
      \<lparr>yielded = [PInt 5], logged = [], invoked = [], raised = None\<rparr>"
    by (simp add: h1 h2 Let_def)
  then have "local_call ?cl ?self [] [] \<lparr>posts = 0, slept = 0\<rparr>
     = (Inr (PInt 5), \<lparr>posts = 1, slept = 0\<rparr>, [])"
    by (simp add: local_call_def local_stream_call_def example_local_call_base
                  content_plain_response)
  with example_carries(7) example_carries(6) show ?thesis by (intro conjI)
qed

section \<open>Falsy results\<close>

lemma results_stream:
  assumes "list_all2 (carries cl) cs (map ResultEvent vs)"
    and "\<not> passthrough self"
  shows "stream_events cl self cs =
           \<lparr>yielded = filter truthy vs, logged = [], invoked = [], raised = None\<rparr>"
proof -
  have q: "\<forall>ev \<in> set (map ResultEvent vs). quiet ev" by auto
  have "truthy_results (map ResultEvent vs) = filter truthy vs" by (induction vs) auto
  moreover have "trace_log cl (map ResultEvent vs) = []" by (induction vs) auto
  ultimately show ?thesis using quiet_stream[OF assms(1) q assms(2)] by simp
qed

lemma results_stream_passthrough:
  assumes "list_all2 (carries cl) cs (map ResultEvent vs)"
    and "passthrough self" and "func self = Some f"
    and "\<forall>v \<in> set vs. truthy v \<longrightarrow> fcall f [v] [] = Inr (g v)"
  shows "stream_events cl self cs =
           \<lparr>yielded = map g (filter truthy vs), logged = [], invoked = filter truthy vs,
            raised = None\<rparr>"
  using assms(1,4)
proof (induction cs vs rule: list_induct2')
  case 1
  then show ?case by simp
next
  case (2 c cs)
  then show ?case by simp
next
  case (3 v vs)
  then show ?case by simp
next
  case (4 c cs v vs)
  then have car: "carries cl c (ResultEvent v)"
    and ih: "stream_events cl self cs =
      \<lparr>yielded = map g (filter truthy vs), logged = [], invoked = filter truthy vs,
       raised = None\<rparr>"
    by simp_all
  show ?case
  proof (cases "truthy v")
    case True
    with 4(3) have "fcall f [v] [] = Inr (g v)" by simp
    with handle_result[OF car, of self] True assms(2,3) ih show ?thesis
      by (simp add: Let_def)
  next
    case False
    with handle_result[OF car, of self] ih show ?thesis by (simp add: Let_def)
  qed
qed

text \<open>
  C9. A line that carries a result with a falsy value changes nothing: the stream goes on
  as if the line were not there. Of lines that carry results, exactly the truthy values
  are yielded, in their order; for a passthrough cord exactly the truthy values are
  handed to the wrapped function, and what it returns is yielded. Nothing is logged.
  The values 0, the empty string, the empty list, false and None are falsy.
\<close>

theorem falsy_results_dropped:
  "(carries cl c (ResultEvent v) \<and> \<not> truthy v
      \<longrightarrow> stream_events cl self (c # rest) = stream_events cl self rest) \<and>
   (list_all2 (carries cl) cs (map ResultEvent vs) \<and> \<not> passthrough self
      \<longrightarrow> stream_events cl self cs =
            \<lparr>yielded = filter truthy vs, logged = [], invoked = [], raised = None\<rparr>) \<and>
   (list_all2 (carries cl) cs (map ResultEvent vs) \<and> passthrough self \<and> func self = Some f \<and>
      (\<forall>v \<in> set vs. truthy v \<longrightarrow> fcall f [v] [] = Inr (g v))
      \<longrightarrow> stream_events cl self cs =
            \<lparr>yielded = map g (filter truthy vs), logged = [], invoked = filter truthy vs,
             raised = None\<rparr>) \<and>
   \<not> truthy (PInt 0) \<and> \<not> truthy (PStr []) \<and> \<not> truthy (PList []) \<and>
   \<not> truthy (PBool False) \<and> \<not> truthy PNone"
proof -
  have a: "stream_events cl self (c # rest) = stream_events cl self rest"
    if "carries cl c (ResultEvent v)" "\<not> truthy v"
    using handle_result[OF that(1), of self] that(2) by (simp add: Let_def)
  then have a': "carries cl c (ResultEvent v) \<and> \<not> truthy v
      \<longrightarrow> stream_events cl self (c # rest) = stream_events cl self rest"
    by blast
  have b: "list_all2 (carries cl) cs (map ResultEvent vs) \<and> \<not> passthrough self
      \<longrightarrow> stream_events cl self cs =
            \<lparr>yielded = filter truthy vs, logged = [], invoked = [], raised = None\<rparr>"
    using results_stream[of cl cs vs self] by blast
  have c: "list_all2 (carries cl) cs (map ResultEvent vs) \<and> passthrough self \<and> func self = Some f \<and>
      (\<forall>v \<in> set vs. truthy v \<longrightarrow> fcall f [v] [] = Inr (g v))
      \<longrightarrow> stream_events cl self cs =
            \<lparr>yielded = map g (filter truthy vs), logged = [], invoked = filter truthy vs,
             raised = None\<rparr>"
    using results_stream_passthrough[of cl cs vs self f g] by blast
  have d: "\<not> truthy (PInt 0) \<and> \<not> truthy (PStr []) \<and> \<not> truthy (PList []) \<and>
           \<not> truthy (PBool False) \<and> \<not> truthy PNone"
    by simp
  show ?thesis by (rule conjI[OF a' conjI[OF b conjI[OF c d]]])
qed

text \<open>The results 0 and 5, without and with passthrough.\<close>

theorem falsy_results_dropped_witness:
  "stream_events (example_client (streaming_remote [])) (bound_cord 0 ''foo'')
       [frame_zero, frame_five]
     = stream_events (example_client (streaming_remote [])) (bound_cord 0 ''foo'') [frame_five] \<and>
   stream_events (example_client (streaming_remote [])) (bound_cord 0 ''foo'')
       [frame_zero, frame_five]
     = \<lparr>yielded = [PInt 5], logged = [], invoked = [], raised = None\<rparr> \<and>
   stream_events (example_client (streaming_remote []))
       ((bound_cord 0 ''foo'')\<lparr>passthrough := True\<rparr>) [frame_zero, frame_five]
     = \<lparr>yielded = [PList [PInt 5]], logged = [], invoked = [PInt 5], raised = None\<rparr>"
proof -
  let ?cl = "example_client (streaming_remote [])"
  let ?self = "bound_cord 0 ''foo''"
  let ?pass = "(bound_cord 0 ''foo'')\<lparr>passthrough := True\<rparr>"
  let ?g = "\<lambda>v. PList [v]"
  note drop = falsy_results_dropped[of ?cl frame_zero "PInt 0" ?self "[frame_five]"
                "[frame_zero, frame_five]" "[PInt 0, PInt 5]" "example_func ''foo''" ?g]
  note pass = falsy_results_dropped[of ?cl frame_zero "PInt 0" ?pass "[frame_five]"
                "[frame_zero, frame_five]" "[PInt 0, PInt 5]" "example_func ''foo''" ?g]
  have z: "\<not> truthy (PInt 0)" by simp
  have cs: "list_all2 (carries ?cl) [frame_zero, frame_five] (map ResultEvent [PInt 0, PInt 5])"
    by (simp add: example_carries del: carries.simps)
  have one: "stream_events ?cl ?self [frame_zero, frame_five] = stream_events ?cl ?self [frame_five]"
    by (rule mp[OF drop[THEN conjunct1] conjI[OF example_carries(6) z]])
  have "stream_events ?cl ?self [frame_zero, frame_five] =
      \<lparr>yielded = filter truthy [PInt 0, PInt 5], logged = [], invoked = [], raised = None\<rparr>"
    by (rule mp[OF drop[THEN conjunct2, THEN conjunct1] conjI[OF cs bound_cord_passthrough]])
  then have two: "stream_events ?cl ?self [frame_zero, frame_five] =
      \<lparr>yielded = [PInt 5], logged = [], invoked = [], raised = None\<rparr>"
    by simp
  have p: "passthrough ?pass" by simp
  have f: "func ?pass = Some (example_func ''foo'')" by (simp add: bound_cord_def)
  have g: "\<forall>v \<in> set [PInt 0, PInt 5]. truthy v \<longrightarrow> fcall (example_func ''foo'') [v] [] = Inr (?g v)"
    by (simp add: example_func_def)
  have "stream_events ?cl ?pass [frame_zero, frame_five] =
      \<lparr>yielded = map ?g (filter truthy [PInt 0, PInt 5]), logged = [],
       invoked = filter truthy [PInt 0, PInt 5], raised = None\<rparr>"
    by (rule mp[OF pass[THEN conjunct2, THEN conjunct2, THEN conjunct1]
                   conjI[OF cs conjI[OF p conjI[OF f g]]]])
  then have three: "stream_events ?cl ?pass [frame_zero, frame_five] =
      \<lparr>yielded = [PList [PInt 5]], logged = [], invoked = [PInt 5], raised = None\<rparr>"
    by simp
  show ?thesis by (rule conjI[OF one conjI[OF two three]])
qed

section \<open>The call envelope\<close>

lemma decode_argument_round_trip:
  assumes "b64decode srv (b64encode cl (gzip_compress cl p)) = Inr (gzip_compress cl p)"
    and "gzip_decompress srv (gzip_compress cl p) = Inr p"
    and "fickling_load srv p = Inr v"
    and "map_of kvs key = Some (PStr (b64encode cl (gzip_compress cl p)))"
  shows "decode_argument srv (PDict kvs) key = Inr v"
  using assms by (simp add: decode_argument_def)

text \<open>
  C1. Let the libraries keep their contracts: decoding a base64 encoding and
  decompressing a compression give back the bytes, and the safe loader gives back the
  tuple of positional arguments and the dict of keyword arguments from their pickles.
  Then the payload of the calling side holds the two encodings under the keys
  \<open>args\<close> and \<open>kwargs\<close>, each made on its own, and the remote side decodes the
  payload to the original pair.
\<close>

theorem envelope_round_trip:
  assumes "\<And>b. b64decode srv (b64encode cl b) = Inr b"
    and "\<And>b. gzip_decompress srv (gzip_compress cl b) = Inr b"
    and "pickle_dumps cl (PTuple args) = Inr pa"
    and "fickling_load srv pa = Inr (PTuple args)"
    and "pickle_dumps cl (PDict kwargs) = Inr pk"
    and "fickling_load srv pk = Inr (PDict kwargs)"
  shows "request_payload cl args kwargs =
           Inr [(''args'', b64encode cl (gzip_compress cl pa)),
                (''kwargs'', b64encode cl (gzip_compress cl pk))] \<and>
         decode_arguments srv
           (PDict [(''args'', PStr (b64encode cl (gzip_compress cl pa))),
                   (''kwargs'', PStr (b64encode cl (gzip_compress cl pk)))])
           = Inr (PTuple args, PDict kwargs)"
proof -
  let ?kvs = "[(''args'', PStr (b64encode cl (gzip_compress cl pa))),
               (''kwargs'', PStr (b64encode cl (gzip_compress cl pk)))]"
  have enc: "request_payload cl args kwargs =
           Inr [(''args'', b64encode cl (gzip_compress cl pa)),
                (''kwargs'', b64encode cl (gzip_compress cl pk))]"
    using assms(3,5) by (simp add: request_payload_def)
  have a: "decode_argument srv (PDict ?kvs) ''args'' = Inr (PTuple args)"
    by (rule decode_argument_round_trip[OF assms(1) assms(2) assms(4)]) simp
  have k: "decode_argument srv (PDict ?kvs) ''kwargs'' = Inr (PDict kwargs)"
    by (rule decode_argument_round_trip[OF assms(1) assms(2) assms(6)]) simp
  from a k have "decode_arguments srv (PDict ?kvs) = Inr (PTuple args, PDict kwargs)"
    by (simp add: decode_arguments_def)
  with enc show ?thesis by (rule conjI)
qed

lemma untagged_tagged: "untagged t (t @ b) = Inr b"
proof -
  have "startswith (t @ b) t" by (induction t) auto
  then show ?thesis by (simp add: untagged_def)
qed

text \<open>The call with the one positional argument 41, with the toy codec.\<close>

theorem envelope_round_trip_witness:
  "request_payload codec_client [PInt 41] [] =
      Inr [(''args'', ''b64:gz:(41,)''), (''kwargs'', ''b64:gz:{}'')] \<and>
   decode_arguments (example_server sidecar_down)
      (PDict [(''args'', PStr ''b64:gz:(41,)''), (''kwargs'', PStr ''b64:gz:{}'')])
     = Inr (PTuple [PInt 41], PDict [])"
proof -
  let ?srv = "example_server sidecar_down"
  have b: "\<And>b. b64decode ?srv (b64encode codec_client b) = Inr b"
    by (simp add: example_server_def codec_client_def untagged_def)
  have g: "\<And>b. gzip_decompress ?srv (gzip_compress codec_client b) = Inr b"
    by (simp add: example_server_def codec_client_def untagged_def)
  have da: "pickle_dumps codec_client (PTuple [PInt 41]) = Inr ''(41,)''"
    by (simp add: codec_client_def example_dumps_def)
  have la: "fickling_load ?srv ''(41,)'' = Inr (PTuple [PInt 41])"
    by (simp add: example_server_def example_load_def)
  have dk: "pickle_dumps codec_client (PDict []) = Inr ''{}''"
    by (simp add: codec_client_def example_dumps_def)
  have lk: "fickling_load ?srv ''{}'' = Inr (PDict [])"
    by (simp add: example_server_def example_load_def)
  have e1: "b64encode codec_client (gzip_compress codec_client ''(41,)'') = ''b64:gz:(41,)''"
    by (simp add: codec_client_def)
  have e2: "b64encode codec_client (gzip_compress codec_client ''{}'') = ''b64:gz:{}''"
    by (simp add: codec_client_def)
  from envelope_round_trip[of ?srv codec_client, OF b g da la dk lk]
  show ?thesis by (simp only: e1 e2)
qed

text \<open>
  Under the same contracts, a unary cord that is not a passthrough applies the wrapped
  function to the very arguments of the local call.
\<close>

lemma request_handler_round_trip:
  assumes "\<And>b. b64decode srv (b64encode cl b) = Inr b"
    and "\<And>b. gzip_decompress srv (gzip_compress cl b) = Inr b"
    and "pickle_dumps cl (PTuple args) = Inr pa"
    and "fickling_load srv pa = Inr (PTuple args)"
    and "pickle_dumps cl (PDict kwargs) = Inr pk"
    and "fickling_load srv pk = Inr (PDict kwargs)"
    and "request_payload cl args kwargs = Inr encoded"
    and "json_body req = Inr (PDict (map (\<lambda>(k, s). (k, PStr s)) encoded))"
    and "func self = Some f" and "\<not> passthrough self" and "\<not> stream self"
  shows "fst (request_handler srv self req n) =
           (case fcall f args kwargs of Inl e \<Rightarrow> Inl e | Inr v \<Rightarrow> Inr (Returned v))"
proof -
  let ?kvs = "[(''args'', PStr (b64encode cl (gzip_compress cl pa))),
               (''kwargs'', PStr (b64encode cl (gzip_compress cl pk)))]"
  from assms(3,5,7) have p: "encoded =
      [(''args'', b64encode cl (gzip_compress cl pa)),
       (''kwargs'', b64encode cl (gzip_compress cl pk))]"
    by (simp add: request_payload_def)
  have a: "decode_argument srv (PDict ?kvs) ''args'' = Inr (PTuple args)"
    by (rule decode_argument_round_trip[OF assms(1) assms(2) assms(4)]) simp
  have k: "decode_argument srv (PDict ?kvs) ''kwargs'' = Inr (PDict kwargs)"
    by (rule decode_argument_round_trip[OF assms(1) assms(2) assms(6)]) simp
  from a k have d: "decode_arguments srv (PDict ?kvs) = Inr (PTuple args, PDict kwargs)"
    by (simp add: decode_arguments_def)
  from assms(8) p have j: "json_body req = Inr (PDict ?kvs)" by simp
  show ?thesis
    using assms(9,10,11)
    by (simp add: request_handler_def Let_def j d unpack_positional_def unpack_keywords_def
                  remote_call_def split: sum.splits)
qed

section \<open>Unsafe arguments\<close>

lemma status_401_forbidden:
  "status_attribute ''HTTP_401_FORBIDDEN'' = Inl (AttributeError ''HTTP_401_FORBIDDEN'')"
  by code_simp

lemma request_handler_unsafe:
  assumes "json_body req = Inr request"
    and "decode_arguments srv request = Inl (UnsafeFileError exc)"
  shows "fst (request_handler srv self req n) = Inl (AttributeError ''HTTP_401_FORBIDDEN'')"
  using assms by (simp add: request_handler_def Let_def status_401_forbidden)

text \<open>
  C2, at a request whose positional arguments are a payload that the safe loader rejects:
  the handler does not raise an HTTPException with status 401; building that exception
  reads \<^verbatim>\<open>status.HTTP_401_FORBIDDEN\<close>, which the module does not have, and the
  handler raises AttributeError.
\<close>

theorem request_handler_unsafe_payload:
  "decode_arguments (example_server sidecar_down)
      (PDict [(''args'', PStr ''b64:gz:os.system''), (''kwargs'', PStr ''b64:gz:{}'')])
     = Inl (UnsafeFileError ''call to os.system'') \<and>
   fst (request_handler (example_server sidecar_down) (bound_cord 0 ''foo'') hostile_request 0)
     = Inl (AttributeError ''HTTP_401_FORBIDDEN'')"
proof -
  let ?srv = "example_server sidecar_down"
  let ?request = "PDict [(''args'', PStr ''b64:gz:os.system''), (''kwargs'', PStr ''b64:gz:{}'')]"
  have u1: "untagged ''b64:'' ''b64:gz:os.system'' = Inr ''gz:os.system''"
    by (simp add: untagged_def)
  have u2: "untagged ''gz:'' ''gz:os.system'' = Inr ''os.system''"
    by (simp add: untagged_def)
  have "decode_argument ?srv ?request ''args'' = Inl (UnsafeFileError ''call to os.system'')"
    by (simp add: decode_argument_def example_server_def u1 u2 example_load_def)
  then have d: "decode_arguments ?srv ?request = Inl (UnsafeFileError ''call to os.system'')"
    by (simp add: decode_arguments_def)
  have j: "json_body hostile_request = Inr ?request" by (simp add: hostile_request_def)
  from d request_handler_unsafe[OF j d] show ?thesis by (rule conjI)
qed

section \<open>Passthrough\<close>

lemma concat_split_lines: "concat (split_lines s) = s"
  by (induction s) (auto split: list.splits)

lemma split_lines_Nil_iff: "split_lines s = [] \<longleftrightarrow> s = []"
  by (cases s) (auto split: list.splits)

lemma split_lines_line:
  "newline \<notin> set b \<Longrightarrow> split_lines (b @ newline # rest) = (b @ [newline]) # split_lines rest"
  by (induction b) auto

lemma split_lines_concat_lines:
  "list_all is_line cs \<Longrightarrow> split_lines (concat cs) = cs"
proof (induction cs)
  case Nil
  then show ?case by simp
next
  case (Cons c cs)
  then have l: "is_line c" and ih: "split_lines (concat cs) = cs" by simp_all
  from l have c: "c = butlast c @ [newline]" and nb: "newline \<notin> set (butlast c)"
    by (auto simp: is_line_def) (metis append_butlast_last_id)
  have "split_lines (concat (c # cs)) = split_lines (butlast c @ newline # concat cs)"
    using c by (metis append.assoc append_Cons append_Nil concat.simps(2))
  also have "\<dots> = (butlast c @ [newline]) # split_lines (concat cs)"
    by (rule split_lines_line[OF nb])
  finally show ?case using c ih by simp
qed

lemma iter_content_within:
  "\<forall>l \<in> set (split_lines (concat cs)). length l \<le> limit \<Longrightarrow>
     iter_content limit cs = (split_lines (concat cs), None)"
proof -
  assume a: "\<forall>l \<in> set (split_lines (concat cs)). length l \<le> limit"
  then have eq: "takeWhile (\<lambda>l. length l \<le> limit) (split_lines (concat cs))
               = split_lines (concat cs)"
    by (simp add: takeWhile_eq_all_conv)
  show ?thesis unfolding iter_content_def Let_def eq by simp
qed

text \<open>
  C8, as amended. For a bound cord in passthrough mode, one request is sent to the
  sidecar. If the sidecar answers with status 200, the unary call returns what the JSON
  body of the answer parses to, as it is. If the sidecar answers with status 200 and no
  line of the body is longer than the stream reader accepts, the streaming call yields
  the lines of the body, in their order; put together they are the body as it was sent,
  and when every chunk of the body is one whole line, they are the chunks themselves.
  If the request to the sidecar raises, both calls raise the same exception, after that
  one request.
\<close>

theorem passthrough_relay:
  assumes "passthrough self" and "func self = Some f"
  shows "(sidecar srv n (passthrough_target self kwargs) = Inr response \<and>
            sidecar_status response = 200
          \<longrightarrow> remote_call srv self args kwargs n = (json_result response, Suc n)) \<and>
         (sidecar srv n (passthrough_target self kwargs) = Inr response \<and>
            sidecar_status response = 200 \<and>
            (\<forall>l \<in> set (split_lines (concat (body_chunks response))). length l \<le> high_water srv)
          \<longrightarrow> remote_stream_call srv self args kwargs n
                = ((map PBytes (split_lines (concat (body_chunks response))), None), Suc n) \<and>
              concat (split_lines (concat (body_chunks response)))
                = concat (body_chunks response) \<and>
              (list_all is_line (body_chunks response)
                 \<longrightarrow> split_lines (concat (body_chunks response)) = body_chunks response)) \<and>
         (sidecar srv n (passthrough_target self kwargs) = Inl e
          \<longrightarrow> remote_call srv self args kwargs n = (Inl e, Suc n) \<and>
              remote_stream_call srv self args kwargs n = (([], Some e), Suc n))"
proof -
  have a: "remote_call srv self args kwargs n = (json_result response, Suc n)"
    if "sidecar srv n (passthrough_target self kwargs) = Inr response"
    using that assms by (simp add: remote_call_def passthrough_call_def)
  have b: "remote_stream_call srv self args kwargs n
             = ((map PBytes (split_lines (concat (body_chunks response))), None), Suc n)"
    if "sidecar srv n (passthrough_target self kwargs) = Inr response"
      and "\<forall>l \<in> set (split_lines (concat (body_chunks response))). length l \<le> high_water srv"
    using that(1) assms iter_content_within[OF that(2)]
    by (simp add: remote_stream_call_def passthrough_call_def)
  have c: "remote_call srv self args kwargs n = (Inl e, Suc n) \<and>
           remote_stream_call srv self args kwargs n = (([], Some e), Suc n)"
    if "sidecar srv n (passthrough_target self kwargs) = Inl e"
    using that assms by (simp add: remote_call_def remote_stream_call_def passthrough_call_def)
  from a b c concat_split_lines split_lines_concat_lines show ?thesis by blast
qed


lemma passthrough_cord_bound:
  "passthrough passthrough_cord" "func passthrough_cord = Some (example_func ''foo'')"
  by (simp_all add: passthrough_cord_def bound_cord_def)

lemma example_sidecar: "sidecar (example_server side) n req = side n"
  by (simp add: example_server_def)

lemma example_high_water: "high_water (example_server side) = 131072"
  by (simp add: example_server_def)

text \<open>
  The sidecar that answers \<^verbatim>\<open>{"x": 1}\<close>, the sidecar that sends the lines
  \<^verbatim>\<open>b"1\n"\<close> and \<^verbatim>\<open>b"2\n"\<close>, and the sidecar that cannot be reached.
\<close>

theorem passthrough_relay_witness:
  "remote_call (example_server sidecar_json) passthrough_cord [] [] 0
     = (Inr (PDict [(''x'', PInt 1)]), 1) \<and>
   remote_stream_call (example_server sidecar_lines) passthrough_cord [] [] 0
     = (([PBytes ''1\<newline>'', PBytes ''2\<newline>''], None), 1) \<and>
   remote_call (example_server sidecar_down) passthrough_cord [] [] 0
     = (Inl (LibraryError ''ClientConnectorError''), 1) \<and>
   remote_stream_call (example_server sidecar_down) passthrough_cord [] [] 0
     = (([], Some (LibraryError ''ClientConnectorError'')), 1)"
proof -
  let ?tgt = "passthrough_target passthrough_cord []"
  obtain rj where rj: "sidecar_json 0 = Inr rj" and stj: "sidecar_status rj = 200"
    and jr: "json_result rj = Inr (PDict [(''x'', PInt 1)])"
    by (simp add: sidecar_json_def)
  have sj: "sidecar (example_server sidecar_json) 0 ?tgt = Inr rj"
    by (simp only: example_sidecar rj)
  have one: "remote_call (example_server sidecar_json) passthrough_cord [] [] 0
     = (Inr (PDict [(''x'', PInt 1)]), 1)"
    using mp[OF passthrough_relay[OF passthrough_cord_bound, THEN conjunct1] conjI[OF sj stj]]
    by (simp only: jr One_nat_def)
  obtain rl where rl: "sidecar_lines 0 = Inr rl" and stl: "sidecar_status rl = 200"
    and bl: "body_chunks rl = [''1\<newline>'', ''2\<newline>'']"
    by (simp add: sidecar_lines_def)
  have sl: "sidecar (example_server sidecar_lines) 0 ?tgt = Inr rl"
    by (simp only: example_sidecar rl)
  have ls: "split_lines (concat (body_chunks rl)) = [''1\<newline>'', ''2\<newline>'']"
    unfolding bl by code_simp
  have hw: "\<forall>l \<in> set (split_lines (concat (body_chunks rl))).
              length l \<le> high_water (example_server sidecar_lines)"
    unfolding ls example_high_water by simp
  have two: "remote_stream_call (example_server sidecar_lines) passthrough_cord [] [] 0
     = (([PBytes ''1\<newline>'', PBytes ''2\<newline>''], None), 1)"
    using mp[OF passthrough_relay[OF passthrough_cord_bound, THEN conjunct2, THEN conjunct1]
               conjI[OF sl conjI[OF stl hw]], THEN conjunct1]
    unfolding ls by simp
  have sd: "sidecar (example_server sidecar_down) 0 ?tgt = Inl (LibraryError ''ClientConnectorError'')"
    by (simp only: example_sidecar sidecar_down_def)
  have three: "remote_call (example_server sidecar_down) passthrough_cord [] [] 0
       = (Inl (LibraryError ''ClientConnectorError''), 1) \<and>
     remote_stream_call (example_server sidecar_down) passthrough_cord [] [] 0
       = (([], Some (LibraryError ''ClientConnectorError'')), 1)"
    using mp[OF passthrough_relay[OF passthrough_cord_bound, THEN conjunct2, THEN conjunct2] sd]
    by simp
  show ?thesis by (rule conjI[OF one conjI[OF two three]])
qed

text \<open>
  C8 as it is written fails twice. A body sent as the chunks \<^verbatim>\<open>b"1"\<close> and
  \<^verbatim>\<open>b"2"\<close> is yielded as the one item \<^verbatim>\<open>b"12"\<close>. An answer with status 500 is
  no failure for the unary call, which returns its JSON body.
\<close>

theorem passthrough_relay_counterexample:
  "remote_stream_call (example_server sidecar_chunks) passthrough_cord [] [] 0
     = (([PBytes ''12''], None), 1) \<and>
   remote_call (example_server sidecar_failing) passthrough_cord [] [] 0
     = (Inr (PDict [(''detail'', PStr ''Internal Server Error'')]), 1)"
proof -
  have ls: "split_lines (concat [''1'', ''2'']) = [''12'']" by code_simp
  have "\<forall>l \<in> set (split_lines (concat [''1'', ''2''])). length l \<le> 131072"
    unfolding ls by simp
  from iter_content_within[OF this]
  have it: "iter_content 131072 [''1'', ''2''] = ([''12''], None)"
    unfolding ls .
  have one: "remote_stream_call (example_server sidecar_chunks) passthrough_cord [] [] 0
     = (([PBytes ''12''], None), 1)"
    by (simp add: remote_stream_call_def passthrough_call_def passthrough_cord_bound
                  example_sidecar example_high_water sidecar_chunks_def it)
  have two: "remote_call (example_server sidecar_failing) passthrough_cord [] [] 0
     = (Inr (PDict [(''detail'', PStr ''Internal Server Error'')]), 1)"
    by (simp add: remote_call_def passthrough_call_def passthrough_cord_bound
                  example_sidecar sidecar_failing_def)
  show ?thesis by (rule conjI[OF one two])
qed

end
